theory Spec2Isabelle
  imports Main
begin

section \<open>Syntax trees as the analyzer sees them\<close>

text \<open>
  The analyzer (class \<open>FunctionAnalyzer\<close> of \<open>src/extractor.js\<close>) works on the syntax tree
  that the parser returns. Only a few properties of a tree node are ever read by the
  analyzer: its \<open>type\<close>, the start line of its \<open>loc\<close>, the flags \<open>async\<close> and
  \<open>computed\<close>, the method \<open>kind\<close>, the \<open>name\<close> of an identifier, the \<open>value\<close> of a
  string literal, and child nodes reached through a property key (\<open>id\<close>, \<open>key\<close>,
  \<open>callee\<close>, \<open>object\<close>, \<open>property\<close>, \<open>left\<close>). A node is modelled with exactly these
  properties and the list of its children in traversal order, each with the key under
  which the parent holds it (an array-valued key contributes one entry per element).
  A node without a \<open>name\<close> or \<open>value\<close> carries the empty string, which JavaScript treats
  as falsy just like \<open>undefined\<close>; a missing \<open>loc\<close> is \<open>None\<close>.
\<close>

datatype ntype =
    FunctionDeclaration | FunctionExpression | ArrowFunctionExpression
  | ObjectMethod | ClassMethod | ClassPrivateMethod
  | ClassDeclaration | ClassBody
  | CallExpression | AwaitExpression
  | Identifier | StringLiteral | MemberExpression
  | VariableDeclarator | AssignmentExpression
  | ObjectProperty | ClassProperty | ClassAccessorProperty | ClassPrivateProperty
  | OtherNode

datatype mkind = KConstructor | KMethod | KGet | KSet | KNone

datatype node =
  Node (ntype: ntype) (nline: "nat option") (nasync: bool) (nkind: mkind)
       (ncomputed: bool) (nname: string) (nvalue: string)
       (kids: "(string \<times> node) list")

text \<open>\<open>node.key\<close>: the child held under a property key, if there is one.\<close>

definition field :: "string \<Rightarrow> node \<Rightarrow> node option" where
  "field k n = map_of (kids n) k"

text \<open>The type tests \<open>t.isIdentifier(x)\<close>, \<open>t.isMemberExpression(x)\<close>, ...: false on a
  missing node.\<close>

fun isType :: "ntype \<Rightarrow> node option \<Rightarrow> bool" where
  "isType ty None = False"
| "isType ty (Some n) = (ntype n = ty)"

text \<open>The node types that the tree walker reports to a \<open>Function\<close> visitor, and the ones
  \<open>t.isProperty\<close> accepts.\<close>

definition isFunction :: "node \<Rightarrow> bool" where
  "isFunction n = (ntype n \<in> {FunctionDeclaration, FunctionExpression,
      ArrowFunctionExpression, ObjectMethod, ClassMethod, ClassPrivateMethod})"

definition isProperty :: "node \<Rightarrow> bool" where
  "isProperty n = (ntype n \<in> {ObjectProperty, ClassProperty, ClassAccessorProperty,
      ClassPrivateProperty})"

section \<open>The declaration classifier\<close>

text \<open>\<open>getComputedPropertyName(memberExpr)\<close>.\<close>

definition getComputedPropertyName :: "node \<Rightarrow> string" where
  "getComputedPropertyName memberExpr =
     (case (field ''object'' memberExpr, field ''property'' memberExpr) of
        (Some ob, Some pr) \<Rightarrow>
          (if ntype ob = Identifier \<and> ntype pr = Identifier
           then nname ob @ ''.'' @ nname pr else ''computed'')
      | _ \<Rightarrow> ''computed'')"

text \<open>The name prefix of an accessor: \<open>'get '\<close>, \<open>'set '\<close> or nothing.\<close>

definition kindPrefix :: "mkind \<Rightarrow> string" where
  "kindPrefix k = (if k = KGet then ''get '' else if k = KSet then ''set '' else '''')"

text \<open>The shared body of the class-method and object-method branches of
  \<open>getFunctionInfo\<close> (the constructor test of the class-method branch apart).\<close>

definition methodInfo :: "node \<Rightarrow> string \<times> bool" where
  "methodInfo method =
     (case field ''key'' method of
        None \<Rightarrow> (''anonymous method'', False)
      | Some key \<Rightarrow>
          (if ntype key = Identifier then (kindPrefix (nkind method) @ nname key, True)
           else if ncomputed method \<and> ntype key = MemberExpression
             then (''['' @ getComputedPropertyName key @ '']'', True)
           else (''anonymous method'', False)))"

text \<open>\<open>node.id && node.id.name\<close>: the function's own name, when it has a non-empty one.\<close>

definition ownName :: "node \<Rightarrow> string option" where
  "ownName n =
     (case field ''id'' n of
        None \<Rightarrow> None
      | Some i \<Rightarrow> (if nname i = [] then None else Some (nname i)))"

text \<open>The branch of \<open>getFunctionInfo\<close> for function expressions and arrow functions.\<close>

definition expressionInfo :: "node \<Rightarrow> string \<times> bool" where
  "expressionInfo parent =
     (if ntype parent = VariableDeclarator \<and> isType Identifier (field ''id'' parent)
        then (case field ''id'' parent of Some i \<Rightarrow> (nname i, True)
                | None \<Rightarrow> (''callback/inline function'', False))
      else
        (case (if isProperty parent then
                 (case field ''key'' parent of
                    None \<Rightarrow> None
                  | Some key \<Rightarrow>
                      (if ntype key = Identifier then Some (nname key, True)
                       else if ntype key = StringLiteral then Some (nvalue key, True)
                       else if ncomputed parent \<and> ntype key = MemberExpression
                         then Some (''['' @ getComputedPropertyName key @ '']'', True)
                       else None))
               else None) of
           Some r \<Rightarrow> r
         | None \<Rightarrow>
            (case (if ntype parent = AssignmentExpression
                      \<and> isType MemberExpression (field ''left'' parent)
                   then (case field ''left'' parent of
                           None \<Rightarrow> None
                         | Some memberExpr \<Rightarrow>
                             (case field ''property'' memberExpr of
                                None \<Rightarrow> None
                              | Some pr \<Rightarrow>
                                  (if ntype pr = Identifier then Some (nname pr, True)
                                   else None)))
                   else None) of
               Some r \<Rightarrow> r
             | None \<Rightarrow> (''callback/inline function'', False))))"

text \<open>\<open>getFunctionInfo(node, path)\<close>, with \<open>path.parent\<close> as the second argument. The
  result is the pair \<open>(name, shouldTrack)\<close>.\<close>

definition getFunctionInfo :: "node \<Rightarrow> node \<Rightarrow> string \<times> bool" where
  "getFunctionInfo node parent =
     (case ownName node of
        Some nm \<Rightarrow> (nm, True)
      | None \<Rightarrow>
          (if ntype parent = ClassMethod then
             (if nkind parent = KConstructor then (''constructor'', True)
              else methodInfo parent)
           else if ntype parent = ObjectMethod then methodInfo parent
           else if ntype node = ArrowFunctionExpression \<or> ntype node = FunctionExpression
             then expressionInfo parent
           else (''anonymous'', False)))"

text \<open>\<open>getCallName(node)\<close>; \<open>None\<close> is the \<open>null\<close> result.\<close>

definition getCallName :: "node \<Rightarrow> string option" where
  "getCallName n =
     (case field ''callee'' n of
        None \<Rightarrow> None
      | Some callee \<Rightarrow>
          (if ntype callee = Identifier then Some (nname callee)
           else if ntype callee = MemberExpression then
             (case field ''property'' callee of
                None \<Rightarrow> None
              | Some pr \<Rightarrow> (if ntype pr = Identifier then Some (nname pr) else None))
           else None))"

text \<open>\<open>isPromiseOperation(node)\<close>. When the callee is a member expression whose
  property is an identifier the first test decides alone.\<close>

definition isPromiseOperation :: "node \<Rightarrow> bool" where
  "isPromiseOperation n =
     (case field ''callee'' n of
        None \<Rightarrow> False
      | Some callee \<Rightarrow>
          (if ntype callee = MemberExpression then
             (case field ''property'' callee of
                Some pr \<Rightarrow>
                  (if ntype pr = Identifier
                   then nname pr \<in> set [''then'', ''catch'', ''finally'']
                   else (case field ''object'' callee of
                           Some ob \<Rightarrow> ntype ob = Identifier \<and> nname ob = ''Promise''
                         | None \<Rightarrow> False))
              | None \<Rightarrow>
                  (case field ''object'' callee of
                     Some ob \<Rightarrow> ntype ob = Identifier \<and> nname ob = ''Promise''
                   | None \<Rightarrow> False))
           else False))"

section \<open>The blacklist\<close>

definition functionBlacklist :: "string list" where
  "functionBlacklist =
     [''render'', ''preloadTemplates'', ''constructor'',
      ''onChange'', ''onClick'', ''onSubmit'', ''onLoad'', ''onReady'', ''onFocus'',
      ''onBlur'', ''onMouseDown'', ''onMouseUp'', ''onMouseOver'', ''onMouseOut'',
      ''onKeyDown'', ''onKeyUp'', ''onInput'', ''onScroll'', ''onResize'', ''onError'',
      ''onSuccess'', ''onComplete'',
      ''componentDidMount'', ''componentWillUnmount'', ''componentDidUpdate'',
      ''beforeMount'', ''mounted'', ''beforeUpdate'', ''updated'', ''beforeDestroy'',
      ''destroyed'',
      ''useEffect'', ''useState'', ''useCallback'', ''useMemo'', ''useRef'']"

definition isUpper :: "char \<Rightarrow> bool" where
  "isUpper c = (c \<in> set ''ABCDEFGHIJKLMNOPQRSTUVWXYZ'')"

text \<open>A pattern \<open>/^p[A-Z]/\<close> and a pattern \<open>/q$/\<close>.\<close>

definition prefixThenUpper :: "string \<Rightarrow> string \<Rightarrow> bool" where
  "prefixThenUpper p s =
     (take (length p) s = p \<and>
      (case drop (length p) s of [] \<Rightarrow> False | c # _ \<Rightarrow> isUpper c))"

definition endsWith :: "string \<Rightarrow> string \<Rightarrow> bool" where
  "endsWith q s = (length q \<le> length s \<and> drop (length s - length q) s = q)"

definition isBlacklistedFunction :: "string \<Rightarrow> bool" where
  "isBlacklistedFunction functionName =
     (if functionName \<in> set functionBlacklist then True
      else prefixThenUpper ''on'' functionName
         \<or> prefixThenUpper ''handle'' functionName
         \<or> endsWith ''Handler'' functionName
         \<or> endsWith ''Listener'' functionName
         \<or> endsWith ''Callback'' functionName
         \<or> prefixThenUpper ''_on'' functionName)"

section \<open>The analyzer's state\<close>

text \<open>One entry of \<open>this.functions\<close> (a declaration), one entry of a \<open>callers\<close> array
  (a call record) and one value of \<open>this.functionCalls\<close> (a call aggregate). A line is
  \<open>None\<close> where the source stores \<open>'unknown'\<close>; a recorded operation keeps the line and
  the node type that \<open>getCodeSnippet\<close> returns. Record fields are constants of the
  theory, so the fields \<open>name\<close>, \<open>async\<close>, \<open>file\<close>, \<open>class\<close> and \<open>line\<close> of a declaration
  carry the prefix \<open>f\<close>, and \<open>file\<close> and \<open>line\<close> of a call record the prefix \<open>c\<close>.\<close>

record func =
  fname :: string
  fasync :: bool
  ffile :: string
  fclass :: "string option"
  fline :: "nat option"
  awaitedOperations :: "(nat option \<times> ntype) list"
  promiseOperations :: "(nat option \<times> ntype) list"
  calls :: "unit list"
  awaitedCalls :: "unit list"

record caller =
  cfile :: string
  cline :: "nat option"
  awaited :: bool

record callInfo =
  callers :: "caller list"
  totalCalls :: nat

text \<open>A JavaScript \<open>Map\<close> keeps its keys in insertion order, and \<open>set\<close> on a key that is
  present replaces the value where it stands: an association list with \<open>Map_set\<close>.\<close>

fun Map_set :: "'k \<Rightarrow> 'v \<Rightarrow> ('k \<times> 'v) list \<Rightarrow> ('k \<times> 'v) list" where
  "Map_set k v [] = [(k, v)]"
| "Map_set k v ((k', v') # m) = (if k = k' then (k, v) # m else (k', v') # Map_set k v m)"

definition Map_get :: "('k \<times> 'v) list \<Rightarrow> 'k \<Rightarrow> 'v option" where
  "Map_get m k = map_of m k"

definition Map_has :: "('k \<times> 'v) list \<Rightarrow> 'k \<Rightarrow> bool" where
  "Map_has m k = (map_of m k \<noteq> None)"

text \<open>The field \<open>functions\<close> is called \<open>functionsMap\<close> here.\<close>

record state =
  functionsMap :: "(string \<times> func) list"
  functionCalls :: "(string \<times> callInfo) list"
  errors :: "string list"
  skippedFunctionCount :: nat

text \<open>The state that the constructor of \<open>FunctionAnalyzer\<close> sets up.\<close>

definition newAnalyzer :: state where
  "newAnalyzer = \<lparr>functionsMap = [], functionCalls = [], errors = [], skippedFunctionCount = 0\<rparr>"

section \<open>The call-graph builder\<close>

text \<open>Decimal digits of a number, for the template string that makes the function id.\<close>

function showNat :: "nat \<Rightarrow> string" where
  "showNat n =
     (if n < 10 then [char_of (48 + n)]
      else showNat (n div 10) @ [char_of (48 + n mod 10)])"
  by pat_completeness auto
termination
  by (relation "measure id") auto

definition showLine :: "nat option \<Rightarrow> string" where
  "showLine l = (case l of None \<Rightarrow> ''unknown'' | Some n \<Rightarrow> showNat n)"

text \<open>\<open>path.traverse(visitor)\<close> calls the visitor on every node below \<open>path.node\<close>, in
  source order, and nothing in the visitor of \<open>analyzeFunction\<close> stops it at a nested
  function. \<open>descendants\<close> lists the nodes it reaches.\<close>

fun descendants :: "node \<Rightarrow> node list"
  and descendantsOf :: "(string \<times> node) list \<Rightarrow> node list" where
  "descendants (Node ty lno a kd cp nm vl ks) = descendantsOf ks"
| "descendantsOf [] = []"
| "descendantsOf ((k, c) # ks) = c # descendants c @ descendantsOf ks"

definition collectAwaited :: "node \<Rightarrow> (nat option \<times> ntype) list" where
  "collectAwaited n =
     map (\<lambda>c. (nline c, ntype c)) (filter (\<lambda>c. ntype c = AwaitExpression) (descendants n))"

definition collectPromise :: "node \<Rightarrow> (nat option \<times> ntype) list" where
  "collectPromise n =
     map (\<lambda>c. (nline c, ntype c))
       (filter (\<lambda>c. ntype c = CallExpression \<and> isPromiseOperation c) (descendants n))"

text \<open>\<open>analyzeFunction(path, file, className)\<close>, with \<open>path.node\<close> and \<open>path.parent\<close> as
  the first two arguments.\<close>

definition analyzeFunction :: "node \<Rightarrow> node \<Rightarrow> string \<Rightarrow> string option \<Rightarrow> state \<Rightarrow> state" where
  "analyzeFunction node parent file className s =
     (let functionInfo = getFunctionInfo node parent;
          isAsync = nasync node;
          line = nline node
      in if \<not> snd functionInfo
           then s\<lparr>skippedFunctionCount := Suc (skippedFunctionCount s)\<rparr>
         else if isBlacklistedFunction (fst functionInfo)
           then s\<lparr>skippedFunctionCount := Suc (skippedFunctionCount s)\<rparr>
         else
           (let functionId = file @ '':'' @ fst functionInfo @ '':'' @ showLine line;
                f = \<lparr>fname = fst functionInfo, fasync = isAsync, ffile = file,
                     fclass = className, fline = line,
                     awaitedOperations = collectAwaited node,
                     promiseOperations = collectPromise node,
                     calls = [], awaitedCalls = []\<rparr>
            in s\<lparr>functionsMap := Map_set functionId f (functionsMap s),
                 functionCalls :=
                   (if \<not> Map_has (functionCalls s) (fst functionInfo)
                    then Map_set (fst functionInfo) \<lparr>callers = [], totalCalls = 0\<rparr>
                           (functionCalls s)
                    else functionCalls s)\<rparr>))"

text \<open>\<open>analyzeCall(path, file)\<close>. The aggregate is created when the name is new, then
  the call record is pushed and the counter incremented on the stored object.\<close>

definition analyzeCall :: "node \<Rightarrow> node \<Rightarrow> string \<Rightarrow> state \<Rightarrow> state" where
  "analyzeCall node parent file s =
     (case getCallName node of
        None \<Rightarrow> s
      | Some functionName \<Rightarrow>
          (if functionName = [] then s
           else
             (let isAwaited = (ntype parent = AwaitExpression);
                  line = nline node;
                  fc = (if \<not> Map_has (functionCalls s) functionName
                        then Map_set functionName \<lparr>callers = [], totalCalls = 0\<rparr>
                               (functionCalls s)
                        else functionCalls s)
              in (case Map_get fc functionName of
                    None \<Rightarrow> s\<lparr>functionCalls := fc\<rparr>
                  | Some callInfo \<Rightarrow>
                      s\<lparr>functionCalls :=
                          Map_set functionName
                            \<lparr>callers = callers callInfo
                                 @ [\<lparr>cfile = file, cline = line, awaited = isAwaited\<rparr>],
                             totalCalls = Suc (totalCalls callInfo)\<rparr> fc\<rparr>))))"

text \<open>The walk of \<open>traverse(ast, visitors)\<close> as the sequence of its visitor events: a node
  is entered (with its parent at hand), its children are walked in order, and it is
  left. The root itself is not visited.\<close>

datatype event = Enter node node | Exit node

fun events :: "node \<Rightarrow> node \<Rightarrow> event list"
  and eventsOf :: "node \<Rightarrow> (string \<times> node) list \<Rightarrow> event list" where
  "events parent (Node ty lno a kd cp nm vl ks) =
     Enter parent (Node ty lno a kd cp nm vl ks)
       # eventsOf (Node ty lno a kd cp nm vl ks) ks
       @ [Exit (Node ty lno a kd cp nm vl ks)]"
| "eventsOf parent [] = []"
| "eventsOf parent ((k, c) # ks) = events parent c @ eventsOf parent ks"

text \<open>The visitors of \<open>analyzeFile\<close>: \<open>ClassDeclaration\<close> (enter and exit), \<open>Function\<close>
  and \<open>CallExpression\<close>. The state of the walk is \<open>currentClass\<close> and the analyzer.\<close>

fun visit :: "string \<Rightarrow> event \<Rightarrow> string option \<times> state \<Rightarrow> string option \<times> state" where
  "visit relativePath (Enter parent n) (currentClass, s) =
     (let cc = (if ntype n = ClassDeclaration
                then Some (case field ''id'' n of Some i \<Rightarrow> nname i
                             | None \<Rightarrow> ''AnonymousClass'')
                else currentClass);
          s1 = (if isFunction n then analyzeFunction n parent relativePath cc s else s);
          s2 = (if ntype n = CallExpression then analyzeCall n parent relativePath s1 else s1)
      in (cc, s2))"
| "visit relativePath (Exit n) (currentClass, s) =
     ((if ntype n = ClassDeclaration then None else currentClass), s)"

definition traverse :: "string \<Rightarrow> node \<Rightarrow> state \<Rightarrow> state" where
  "traverse relativePath ast s =
     snd (fold (visit relativePath) (eventsOf ast (kids ast)) (None, s))"

text \<open>What reading, parsing and walking one file gives: the read fails; the parser
  rejects the text; the parser accepts the text but the tree walker throws while it sets
  up its scopes, before it calls any visitor (a redeclaration that the permissive parser
  let through); or there is a tree and it is walked. The messages are those of the
  errors thrown.\<close>

datatype source = Unreadable string | Malformed string | Untraversable string | Parsed node

text \<open>\<open>analyzeFile(filePath, relativePath)\<close>: \<open>Inl\<close> carries the message of the error
  it throws.\<close>

definition analyzeFile :: "source \<Rightarrow> string \<Rightarrow> state \<Rightarrow> string + state" where
  "analyzeFile src relativePath s =
     (case src of
        Unreadable msg \<Rightarrow> Inl msg
      | Malformed msg \<Rightarrow> Inl (''Parse error: '' @ msg)
      | Untraversable msg \<Rightarrow> Inl msg
      | Parsed ast \<Rightarrow> Inr (traverse relativePath ast s))"

text \<open>The loop of \<open>analyzeFolder\<close> over the files found, each with what reading and
  parsing it gives.\<close>

fun analyzeFiles :: "(string \<times> source) list \<Rightarrow> state \<Rightarrow> state" where
  "analyzeFiles [] s = s"
| "analyzeFiles ((file, src) # jsFiles) s =
     analyzeFiles jsFiles
       (case analyzeFile src file s of
          Inr s' \<Rightarrow> s'
        | Inl msg \<Rightarrow> s\<lparr>errors := errors s @ [''Error analyzing '' @ file @ '': '' @ msg]\<rparr>)"

section \<open>The reports\<close>

subsection \<open>Function inventory\<close>

text \<open>\<open>generateFunctionList\<close> groups the declarations by file and then by class, in
  \<open>Map\<close>s of arrays; \<open>Map_push\<close> appends to the array under a key, creating it when the
  key is new. An inventory line keeps what the source prints: the async marker, the
  name, the line and the call count \<open>functionCalls.get(name)?.totalCalls || 0\<close>.\<close>

fun Map_push :: "'k \<Rightarrow> 'v \<Rightarrow> ('k \<times> 'v list) list \<Rightarrow> ('k \<times> 'v list) list" where
  "Map_push k v [] = [(k, [v])]"
| "Map_push k v ((k', vs) # m) =
     (if k = k' then (k', vs @ [v]) # m else (k', vs) # Map_push k v m)"

definition callCount :: "state \<Rightarrow> func \<Rightarrow> nat" where
  "callCount s f =
     (case Map_get (functionCalls s) (fname f) of None \<Rightarrow> 0 | Some ci \<Rightarrow> totalCalls ci)"

type_synonym inventoryLine = "bool \<times> string \<times> nat option \<times> nat"

definition generateFunctionList ::
    "state \<Rightarrow> (string \<times> nat \<times> (string option \<times> inventoryLine list) list) list" where
  "generateFunctionList s =
     (let byFile = fold (\<lambda>(functionId, f). Map_push (ffile f) f) (functionsMap s) [];
          filesToShow = filter (\<lambda>(file, fs). length fs > 0) byFile
      in map (\<lambda>(file, fs).
            (file, length fs,
             map (\<lambda>(className, classFunctions).
                    (className,
                     map (\<lambda>f. (fasync f, fname f, fline f, callCount s f)) classFunctions))
                 (fold (\<lambda>f. Map_push (fclass f) f) fs [(None, [])])))
           filesToShow)"

subsection \<open>Async validation\<close>

text \<open>The four findings of \<open>generateAsyncValidationReport\<close>; the two about calls list
  the call sites concerned.\<close>

datatype issue =
    UnnecessaryAsync
  | MissingAwait "caller list"
  | MissingAsync
  | UnnecessaryAwait "caller list"

definition issuesFor :: "state \<Rightarrow> func \<Rightarrow> issue list" where
  "issuesFor s f =
     (let callInfo = Map_get (functionCalls s) (fname f) in
      if fasync f then
        (if length (awaitedOperations f) = 0 \<and> length (promiseOperations f) = 0
         then [UnnecessaryAsync] else [])
        @ (case callInfo of
             None \<Rightarrow> []
           | Some ci \<Rightarrow>
               (let nonAwaitedCalls = filter (\<lambda>c. \<not> awaited c) (callers ci)
                in if length nonAwaitedCalls > 0 then [MissingAwait nonAwaitedCalls] else []))
      else
        (if length (awaitedOperations f) > 0 \<or> length (promiseOperations f) > 0
         then [MissingAsync] else [])
        @ (case callInfo of
             None \<Rightarrow> []
           | Some ci \<Rightarrow>
               (let awaitedCalls = filter (\<lambda>c. awaited c) (callers ci)
                in if length awaitedCalls > 0 then [UnnecessaryAwait awaitedCalls] else [])))"

definition generateAsyncValidationReport :: "state \<Rightarrow> (func \<times> issue list) list" where
  "generateAsyncValidationReport s =
     filter (\<lambda>(f, issues). length issues > 0)
       (map (\<lambda>(functionId, f). (f, issuesFor s f)) (functionsMap s))"

subsection \<open>Usage tiers\<close>

text \<open>\<open>Array.prototype.sort\<close> with a comparator is a stable sort: an element is placed
  behind every element that the comparator does not put after it. It is modelled by
  insertion, from the first element of the array to the last.\<close>

fun insertSorted :: "('a \<Rightarrow> 'a \<Rightarrow> int) \<Rightarrow> 'a \<Rightarrow> 'a list \<Rightarrow> 'a list" where
  "insertSorted cmp x [] = [x]"
| "insertSorted cmp x (y # ys) =
     (if cmp x y < 0 then x # y # ys else y # insertSorted cmp x ys)"

definition arraySort :: "('a \<Rightarrow> 'a \<Rightarrow> int) \<Rightarrow> 'a list \<Rightarrow> 'a list" where
  "arraySort cmp xs = fold (insertSorted cmp) xs []"

text \<open>The loop of \<open>generateUsageReport\<close> that fills \<open>unused\<close>, \<open>singleUse\<close> and
  \<open>multiUse\<close>, one declaration at a time.\<close>

type_synonym tiers = "func list \<times> (func \<times> callInfo) list \<times> (func \<times> callInfo) list"

definition usageStep :: "state \<Rightarrow> string \<times> func \<Rightarrow> tiers \<Rightarrow> tiers" where
  "usageStep s e t =
     (case t of (unused, singleUse, multiUse) \<Rightarrow>
        (case Map_get (functionCalls s) (fname (snd e)) of
           None \<Rightarrow> (unused @ [snd e], singleUse, multiUse)
         | Some callInfo \<Rightarrow>
             (if totalCalls callInfo = 0 then (unused @ [snd e], singleUse, multiUse)
              else if totalCalls callInfo = 1
                then (unused, singleUse @ [(snd e, callInfo)], multiUse)
              else (unused, singleUse, multiUse @ [(snd e, callInfo)]))))"

definition usageTiers :: "state \<Rightarrow> tiers" where
  "usageTiers s = fold (usageStep s) (functionsMap s) ([], [], [])"

text \<open>The comparator \<open>(a, b) => b.callInfo.totalCalls - a.callInfo.totalCalls\<close>.\<close>

definition byCallCount :: "func \<times> callInfo \<Rightarrow> func \<times> callInfo \<Rightarrow> int" where
  "byCallCount a b = int (totalCalls (snd b)) - int (totalCalls (snd a))"

text \<open>What \<open>generateUsageReport\<close> prints: the unused list, the single-use list and the
  sorted well-used list.\<close>

definition generateUsageReport :: "state \<Rightarrow> tiers" where
  "generateUsageReport s =
     (case usageTiers s of (unused, singleUse, multiUse) \<Rightarrow>
        (unused, singleUse, arraySort byCallCount multiUse))"

subsection \<open>Summary\<close>

text \<open>The result of \<open>Math.round((a / b) * 100)\<close> on counts. A division by zero does not
  throw in JavaScript: \<open>0 / 0\<close> is \<open>NaN\<close>, \<open>a / 0\<close> is infinite for \<open>a \<noteq> 0\<close>, and
  \<open>Math.round\<close> passes both on. For \<open>b \<noteq> 0\<close> the value is that of the computation in
  double precision, which is not computed here: \<open>RoundedPercent a b\<close> stands for it.
  \<open>Num\<close> is an integer written in the source.\<close>

datatype jsnum = NaN | Infinity | NegInfinity | Num int | RoundedPercent int int

definition roundPercent :: "int \<Rightarrow> int \<Rightarrow> jsnum" where
  "roundPercent a b =
     (if b = 0 then (if a = 0 then NaN else if a > 0 then Infinity else NegInfinity)
      else RoundedPercent a b)"

record summary =
  totalFunctions :: int
  trackableFunctions :: int
  asyncFunctions :: int
  asyncShare :: jsnum
  syncFunctions :: int
  syncShare :: jsnum
  usageEfficiency :: jsnum
  wellUsed :: int
  singleUseCount :: int
  singleUseShare :: jsnum
  unusedCount :: int
  unusedShare :: jsnum

definition generateSummary :: "state \<Rightarrow> summary" where
  "generateSummary s =
     (let trackable = int (length (functionsMap s));
          total = trackable + int (skippedFunctionCount s);
          asyncFns = int (length (filter (\<lambda>f. fasync f) (map snd (functionsMap s))));
          syncFns = trackable - asyncFns;
          unused = int (length (filter
                     (\<lambda>f. case Map_get (functionCalls s) (fname f) of
                             None \<Rightarrow> True | Some ci \<Rightarrow> totalCalls ci = 0)
                     (map snd (functionsMap s))));
          singleUse = int (length (filter
                     (\<lambda>f. case Map_get (functionCalls s) (fname f) of
                             None \<Rightarrow> False | Some ci \<Rightarrow> totalCalls ci = 1)
                     (map snd (functionsMap s))));
          well = trackable - unused - singleUse
      in \<lparr>totalFunctions = total,
          trackableFunctions = trackable,
          asyncFunctions = asyncFns,
          asyncShare = roundPercent asyncFns trackable,
          syncFunctions = syncFns,
          syncShare = roundPercent syncFns trackable,
          usageEfficiency = (if trackable > 0 then roundPercent well trackable else Num 0),
          wellUsed = well,
          singleUseCount = singleUse,
          singleUseShare = roundPercent singleUse trackable,
          unusedCount = unused,
          unusedShare = roundPercent unused trackable\<rparr>)"

subsection \<open>The whole run\<close>

text \<open>\<open>writeReportToFile\<close> names the artifact after the clock: the ISO timestamp with
  \<open>:\<close> and \<open>.\<close> replaced by \<open>-\<close>, cut to 19 characters. The file is written under the
  folder analysed.\<close>

definition reportFileName :: "string \<Rightarrow> string" where
  "reportFileName timestamp =
     ''function-analysis-report-''
       @ take 19 (map (\<lambda>c. if c = CHR '':'' \<or> c = CHR ''.'' then CHR ''-'' else c) timestamp)
       @ ''.txt''"

record report =
  excluded :: nat
  parsingErrors :: "string list"
  inventory :: "(string \<times> nat \<times> (string option \<times> inventoryLine list) list) list"
  asyncFindings :: "(func \<times> issue list) list"
  usage :: tiers
  statistics :: summary
  reportName :: string

text \<open>\<open>analyzeFolder(folderPath)\<close> on a new analyzer, as \<open>main\<close> calls it, given the
  clock and the files that the discoverer returned (each with what reading and parsing
  it gives). The result holds the sections of the report as data.\<close>

definition analyzeFolder :: "string \<Rightarrow> string \<Rightarrow> (string \<times> source) list \<Rightarrow> report" where
  "analyzeFolder now folderPath jsFiles =
     (let s = analyzeFiles jsFiles newAnalyzer
      in \<lparr>excluded = skippedFunctionCount s,
          parsingErrors = errors s,
          inventory = generateFunctionList s,
          asyncFindings = generateAsyncValidationReport s,
          usage = generateUsageReport s,
          statistics = generateSummary s,
          reportName = reportFileName now\<rparr>)"


section \<open>The manual file walk\<close>

text \<open>What the walk meets under a directory entry: a regular file, a directory that
  \<open>readdirSync\<close> can list, a directory that it cannot, an entry on which \<open>statSync\<close>
  throws, and an entry that is neither a file nor a directory.\<close>

datatype fsnode =
    FsFile
  | FsDir "(string \<times> fsnode) list"
  | FsDirUnreadable
  | FsStatFails
  | FsOther

datatype fserror = ReaddirError string | StatError string

text \<open>\<open>path.join(basePath, file)\<close> and \<open>path.extname(file).toLowerCase()\<close> on the name
  of a directory entry (which has no separator in it).\<close>

definition pathJoin :: "string \<Rightarrow> string \<Rightarrow> string" where
  "pathJoin basePath file = (if basePath = [] then file else basePath @ ''/'' @ file)"

definition extname :: "string \<Rightarrow> string" where
  "extname file =
     (if CHR ''.'' \<notin> set file then []
      else (let ext = CHR ''.'' # rev (takeWhile (\<lambda>c. c \<noteq> CHR ''.'') (rev file))
            in if length ext = length file \<or> file = ''..'' then [] else ext))"

definition toLowerCase :: "string \<Rightarrow> string" where
  "toLowerCase str = map (\<lambda>c. if isUpper c then char_of (of_char c + (32::nat)) else c) str"

definition isSourceFile :: "string \<Rightarrow> bool" where
  "isSourceFile file =
     (toLowerCase (extname file) \<in> set [''.js'', ''.jsx'', ''.mjs'', ''.ts'', ''.tsx''])"

definition isExcludedDir :: "string \<Rightarrow> bool" where
  "isExcludedDir file = (file \<in> set [''node_modules'', ''dist'', ''build'', ''.git''])"

text \<open>\<open>findJSFilesManually(dir, filesList, basePath)\<close>: \<open>dir\<close> is given as what the path
  denotes. An error thrown by \<open>readdirSync\<close> or \<open>statSync\<close> is not caught anywhere in
  the walk, so it ends the walk and the list built so far is lost: \<open>Inl\<close>.\<close>

fun findJSFilesManually :: "fsnode \<Rightarrow> string list \<Rightarrow> string \<Rightarrow> fserror + string list"
  and walkEntries :: "(string \<times> fsnode) list \<Rightarrow> string list \<Rightarrow> string \<Rightarrow> fserror + string list"
where
  "findJSFilesManually (FsDir files) filesList basePath = walkEntries files filesList basePath"
| "findJSFilesManually FsFile filesList basePath = Inl (ReaddirError basePath)"
| "findJSFilesManually FsDirUnreadable filesList basePath = Inl (ReaddirError basePath)"
| "findJSFilesManually FsStatFails filesList basePath = Inl (ReaddirError basePath)"
| "findJSFilesManually FsOther filesList basePath = Inl (ReaddirError basePath)"
| "walkEntries [] filesList basePath = Inr filesList"
| "walkEntries ((file, FsStatFails) # rest) filesList basePath =
     Inl (StatError (pathJoin basePath file))"
| "walkEntries ((file, FsDir sub) # rest) filesList basePath =
     (if isExcludedDir file then walkEntries rest filesList basePath
      else (case findJSFilesManually (FsDir sub) filesList (pathJoin basePath file) of
              Inl e \<Rightarrow> Inl e
            | Inr filesList' \<Rightarrow> walkEntries rest filesList' basePath))"
| "walkEntries ((file, FsDirUnreadable) # rest) filesList basePath =
     (if isExcludedDir file then walkEntries rest filesList basePath
      else (case findJSFilesManually FsDirUnreadable filesList (pathJoin basePath file) of
              Inl e \<Rightarrow> Inl e
            | Inr filesList' \<Rightarrow> walkEntries rest filesList' basePath))"
| "walkEntries ((file, FsFile) # rest) filesList basePath =
     (if isSourceFile file
      then walkEntries rest (filesList @ [pathJoin basePath file]) basePath
      else walkEntries rest filesList basePath)"
| "walkEntries ((file, FsOther) # rest) filesList basePath =
     walkEntries rest filesList basePath"

section \<open>Notions used to state the properties\<close>

text \<open>The nodes that lie below a node without crossing into a nested function: the walk
  reaches a nested function node but does not go below it. This is what "in the
  declaration's own body" means.\<close>

fun ownDescendants :: "node \<Rightarrow> node list"
  and ownDescendantsOf :: "(string \<times> node) list \<Rightarrow> node list" where
  "ownDescendants (Node ty lno a kd cp nm vl ks) = ownDescendantsOf ks"
| "ownDescendantsOf [] = []"
| "ownDescendantsOf ((k, c) # ks) =
     c # (if isFunction c then [] else ownDescendants c) @ ownDescendantsOf ks"

definition ownAwaited :: "node \<Rightarrow> (nat option \<times> ntype) list" where
  "ownAwaited n =
     map (\<lambda>c. (nline c, ntype c)) (filter (\<lambda>c. ntype c = AwaitExpression) (ownDescendants n))"

text \<open>The call expressions among some nodes, as recorded points, and the calls of
  \<open>then\<close>, \<open>catch\<close> or \<open>finally\<close> through a member access (the first test of
  \<open>isPromiseOperation\<close>).\<close>

definition callPoints :: "node list \<Rightarrow> (nat option \<times> ntype) list" where
  "callPoints ns =
     map (\<lambda>c. (nline c, ntype c)) (filter (\<lambda>c. ntype c = CallExpression) ns)"

definition isCombinatorCall :: "node \<Rightarrow> bool" where
  "isCombinatorCall n =
     (case field ''callee'' n of
        None \<Rightarrow> False
      | Some callee \<Rightarrow>
          ntype callee = MemberExpression \<and>
          (case field ''property'' callee of
             None \<Rightarrow> False
           | Some pr \<Rightarrow>
               ntype pr = Identifier \<and> nname pr \<in> set [''then'', ''catch'', ''finally'']))"

definition noNestedFunction :: "node \<Rightarrow> bool" where
  "noNestedFunction n = list_all (\<lambda>c. \<not> isFunction c) (descendants n)"

text \<open>The aggregate invariant: every stored counter is the length of its \<open>callers\<close>.\<close>

definition aggregateInv :: "state \<Rightarrow> bool" where
  "aggregateInv s =
     list_all (\<lambda>(nm, ci). totalCalls ci = length (callers ci)) (functionCalls s)"

text \<open>The part of the state that declarations and calls contribute to.\<close>

definition core :: "state \<Rightarrow> (string \<times> func) list \<times> (string \<times> callInfo) list \<times> nat" where
  "core s = (functionsMap s, functionCalls s, skippedFunctionCount s)"

text \<open>The call records and the counter that a state holds under a name: none and 0 when
  the name has no aggregate.\<close>

definition callersOf :: "state \<Rightarrow> string \<Rightarrow> caller list" where
  "callersOf s nm =
     (case Map_get (functionCalls s) nm of None \<Rightarrow> [] | Some ci \<Rightarrow> callers ci)"


text \<open>A tree that the manual walk gets through: no \<open>statSync\<close> fails on an entry it
  meets and every directory it enters can be listed (an excluded directory is never
  entered). \<open>sourceFilesIn\<close> lists the source files of the part of a tree that can be
  read, whatever else the tree holds.\<close>

fun walkable :: "fsnode \<Rightarrow> bool"
  and walkableEntries :: "(string \<times> fsnode) list \<Rightarrow> bool" where
  "walkable (FsDir files) = walkableEntries files"
| "walkable FsFile = False"
| "walkable FsDirUnreadable = False"
| "walkable FsStatFails = False"
| "walkable FsOther = False"
| "walkableEntries [] = True"
| "walkableEntries ((file, FsStatFails) # rest) = False"
| "walkableEntries ((file, FsDir sub) # rest) =
     ((isExcludedDir file \<or> walkable (FsDir sub)) \<and> walkableEntries rest)"
| "walkableEntries ((file, FsDirUnreadable) # rest) =
     (isExcludedDir file \<and> walkableEntries rest)"
| "walkableEntries ((file, FsFile) # rest) = walkableEntries rest"
| "walkableEntries ((file, FsOther) # rest) = walkableEntries rest"

fun sourceFilesIn :: "fsnode \<Rightarrow> string \<Rightarrow> string list"
  and sourceFilesOf :: "(string \<times> fsnode) list \<Rightarrow> string \<Rightarrow> string list" where
  "sourceFilesIn (FsDir files) basePath = sourceFilesOf files basePath"
| "sourceFilesIn FsFile basePath = []"
| "sourceFilesIn FsDirUnreadable basePath = []"
| "sourceFilesIn FsStatFails basePath = []"
| "sourceFilesIn FsOther basePath = []"
| "sourceFilesOf [] basePath = []"
| "sourceFilesOf ((file, FsDir sub) # rest) basePath =
     (if isExcludedDir file then [] else sourceFilesIn (FsDir sub) (pathJoin basePath file))
       @ sourceFilesOf rest basePath"
| "sourceFilesOf ((file, FsFile) # rest) basePath =
     (if isSourceFile file then [pathJoin basePath file] else []) @ sourceFilesOf rest basePath"
| "sourceFilesOf ((file, FsDirUnreadable) # rest) basePath = sourceFilesOf rest basePath"
| "sourceFilesOf ((file, FsStatFails) # rest) basePath = sourceFilesOf rest basePath"
| "sourceFilesOf ((file, FsOther) # rest) basePath = sourceFilesOf rest basePath"

text \<open>A list of well-used entries in descending order of call count.\<close>

abbreviation descending :: "(func \<times> callInfo) list \<Rightarrow> bool" where
  "descending \<equiv> sorted_wrt (\<lambda>a b. totalCalls (snd b) \<le> totalCalls (snd a))"

text \<open>The entry that a declaration contributes to the single-use list and to the
  well-used list of \<open>generateUsageReport\<close>, if any.\<close>

definition singleEntry :: "state \<Rightarrow> func \<Rightarrow> (func \<times> callInfo) list" where
  "singleEntry s f =
     (case Map_get (functionCalls s) (fname f) of
        None \<Rightarrow> []
      | Some ci \<Rightarrow> (if totalCalls ci = 1 then [(f, ci)] else []))"

definition multiEntry :: "state \<Rightarrow> func \<Rightarrow> (func \<times> callInfo) list" where
  "multiEntry s f =
     (case Map_get (functionCalls s) (fname f) of
        None \<Rightarrow> []
      | Some ci \<Rightarrow> (if 2 \<le> totalCalls ci then [(f, ci)] else []))"

text \<open>A name without a space and without an opening bracket. Identifier names that the
  parser produces are made of identifier characters only, so in a parsed tree every
  identifier has such a name: \<open>wfTree\<close> says so of the nodes below the root.\<close>

definition plainName :: "string \<Rightarrow> bool" where
  "plainName nm = (CHR '' '' \<notin> set nm \<and> CHR ''['' \<notin> set nm)"

definition wfNode :: "node \<Rightarrow> bool" where
  "wfNode c = (if ntype c = Identifier then plainName (nname c) else True)"

definition wfTree :: "node \<Rightarrow> bool" where
  "wfTree ast = list_all wfNode (descendants ast)"

definition wfSource :: "source \<Rightarrow> bool" where
  "wfSource src = (case src of Parsed ast \<Rightarrow> wfTree ast | _ \<Rightarrow> True)"

definition neverCalledUnlessPlain :: "string \<times> callInfo \<Rightarrow> bool" where
  "neverCalledUnlessPlain e =
     (plainName (fst e) \<or> (callers (snd e) = [] \<and> totalCalls (snd e) = 0))"

definition namesInv :: "state \<Rightarrow> bool" where
  "namesInv s = list_all neverCalledUnlessPlain (functionCalls s)"

text \<open>A visitor event whose call, if it is one with a resolved name, has a plain name.\<close>

definition callOk :: "event \<Rightarrow> bool" where
  "callOk ev = (case ev of Enter p n \<Rightarrow>
                  (case getCallName n of None \<Rightarrow> True | Some nm \<Rightarrow> plainName nm)
                | Exit n \<Rightarrow> True)"

text \<open>No declaration of a state has a blacklisted name.\<close>

definition notBlacklisted :: "string \<times> func \<Rightarrow> bool" where
  "notBlacklisted e = (\<not> isBlacklistedFunction (fname (snd e)))"

definition trackedInv :: "state \<Rightarrow> bool" where
  "trackedInv s = list_all notBlacklisted (functionsMap s)"

text \<open>The names that appear in the inventory, in the async findings and in the usage
  lists of a report.\<close>

definition inventoryNames ::
    "(string \<times> nat \<times> (string option \<times> inventoryLine list) list) list \<Rightarrow> string list" where
  "inventoryNames entries =
     concat (map (\<lambda>(file, n, groups).
               concat (map (\<lambda>(className, ls). map (\<lambda>(a, nm, l, c). nm) ls) groups)) entries)"

definition findingNames :: "(func \<times> issue list) list \<Rightarrow> string list" where
  "findingNames fs = map (\<lambda>e. fname (fst e)) fs"

definition usageNames :: "tiers \<Rightarrow> string list" where
  "usageNames t =
     (case t of (unused, singleUse, multiUse) \<Rightarrow>
        map fname unused @ map (\<lambda>e. fname (fst e)) singleUse
          @ map (\<lambda>e. fname (fst e)) multiUse)"



section \<open>Example inputs\<close>

text \<open>Builders for small trees: a node with a line and children, an identifier, a call
  of a plain name, an expression statement, a block, a function declaration and a
  whole file.\<close>

definition mk :: "ntype \<Rightarrow> nat \<Rightarrow> (string \<times> node) list \<Rightarrow> node" where
  "mk ty l ks = Node ty (Some l) False KNone False [] [] ks"

definition ident :: "nat \<Rightarrow> string \<Rightarrow> node" where
  "ident l nm = Node Identifier (Some l) False KNone False nm [] []"

definition callTo :: "nat \<Rightarrow> string \<Rightarrow> node" where
  "callTo l nm = mk CallExpression l [(''callee'', ident l nm)]"

definition exprStmt :: "nat \<Rightarrow> node \<Rightarrow> node" where
  "exprStmt l e = mk OtherNode l [(''expression'', e)]"

definition block :: "nat \<Rightarrow> node list \<Rightarrow> node" where
  "block l stmts = mk OtherNode l (map (\<lambda>st. (''body'', st)) stmts)"

definition fnDecl :: "nat \<Rightarrow> string \<Rightarrow> bool \<Rightarrow> node list \<Rightarrow> node" where
  "fnDecl l nm isAsync stmts =
     Node FunctionDeclaration (Some l) isAsync KNone False [] []
       [(''id'', ident l nm), (''body'', block l stmts)]"

definition program :: "node list \<Rightarrow> node" where
  "program stmts = mk OtherNode 1 [(''program'', block 1 stmts)]"

text \<open>A file of four lines: \<^verbatim>\<open>function a() {}\<close>, \<^verbatim>\<open>function c() {}\<close>,
  \<^verbatim>\<open>function b() {}\<close> and
  \<^verbatim>\<open>function main() { a(); b(); c(); b(); a(); c(); b(); }\<close>.\<close>

definition exUsage :: node where
  "exUsage = program
     [fnDecl 1 ''a'' False [],
      fnDecl 2 ''c'' False [],
      fnDecl 3 ''b'' False [],
      fnDecl 4 ''main'' False
        [exprStmt 4 (callTo 4 ''a''), exprStmt 4 (callTo 4 ''b''), exprStmt 4 (callTo 4 ''c''),
         exprStmt 4 (callTo 4 ''b''), exprStmt 4 (callTo 4 ''a''), exprStmt 4 (callTo 4 ''c''),
         exprStmt 4 (callTo 4 ''b'')]]"

text \<open>\<^verbatim>\<open>const a = function b() {}\<close>: the function expression and its declarator.\<close>

definition exNamedExpression :: node where
  "exNamedExpression =
     mk FunctionExpression 1 [(''id'', ident 1 ''b''), (''body'', block 1 [])]"

definition exDeclarator :: node where
  "exDeclarator =
     mk VariableDeclarator 1 [(''id'', ident 1 ''a''), (''init'', exNamedExpression)]"

text \<open>\<^verbatim>\<open>const a = () => {}\<close>: the arrow function and its declarator.\<close>

definition exArrow :: node where
  "exArrow = mk ArrowFunctionExpression 1 [(''body'', block 1 [])]"

definition exArrowDeclarator :: node where
  "exArrowDeclarator =
     mk VariableDeclarator 1 [(''id'', ident 1 ''a''), (''init'', exArrow)]"

text \<open>A directory with two source files and a subdirectory that cannot be listed, and a
  tree in which only an excluded directory cannot be listed.\<close>

definition exUnreadableTree :: fsnode where
  "exUnreadableTree =
     FsDir [(''a.js'', FsFile), (''secret'', FsDirUnreadable), (''b.ts'', FsFile)]"

definition exReadableTree :: fsnode where
  "exReadableTree =
     FsDir [(''a.js'', FsFile),
            (''lib'', FsDir [(''X.TSX'', FsFile), (''.js'', FsFile), (''notes.md'', FsFile)]),
            (''node_modules'', FsDirUnreadable),
            (''b.ts'', FsFile)]"

text \<open>A function with a nested async arrow function that awaits:
  \<^verbatim>\<open>function outer() { const inner = async () => { await g(); }; }\<close>, the
  \<^verbatim>\<open>await\<close> on line 3.\<close>

definition exOuter :: node where
  "exOuter =
     fnDecl 1 ''outer'' False
       [mk OtherNode 2
          [(''declarations'',
            mk VariableDeclarator 2
              [(''id'', ident 2 ''inner''),
               (''init'',
                Node ArrowFunctionExpression (Some 2) True KNone False [] []
                  [(''body'', block 2
                      [exprStmt 3 (mk AwaitExpression 3 [(''argument'', callTo 3 ''g'')])])])])]]"

definition exNested :: node where
  "exNested = program [exOuter]"

text \<open>The tree of the five lines \<^verbatim>\<open>class Box {\<close>, \<^verbatim>\<open>constructor() {}\<close>,
  \<^verbatim>\<open>get size() { return 1; }\<close>, \<^verbatim>\<open>}\<close> and \<^verbatim>\<open>size();\<close>. A method of a class
  is one node of type \<open>ClassMethod\<close>, with its kind, its key and its body, held in the
  \<open>body\<close> of the class body.\<close>

definition exConstructor :: node where
  "exConstructor =
     Node ClassMethod (Some 2) False KConstructor False [] []
       [(''key'', ident 2 ''constructor''), (''body'', block 2 [])]"

definition exGetter :: node where
  "exGetter =
     Node ClassMethod (Some 3) False KGet False [] []
       [(''key'', ident 3 ''size''),
        (''body'', block 3 [mk OtherNode 3 [(''argument'', mk OtherNode 3 [])]])]"

definition exClassBody :: node where
  "exClassBody = mk ClassBody 1 [(''body'', exConstructor), (''body'', exGetter)]"


text \<open>A function whose nested arrow function chains a promise:
  \<^verbatim>\<open>function load() { const later = () => { fetchIt().then(done); }; }\<close>, the
  chained call on line 3.\<close>

definition exLoad :: node where
  "exLoad =
     fnDecl 1 ''load'' False
       [mk OtherNode 2
          [(''declarations'',
            mk VariableDeclarator 2
              [(''id'', ident 2 ''later''),
               (''init'',
                mk ArrowFunctionExpression 2
                  [(''body'', block 2
                      [exprStmt 3
                         (mk CallExpression 3
                            [(''callee'',
                              mk MemberExpression 3
                                [(''object'', callTo 3 ''fetchIt''),
                                 (''property'', ident 3 ''then'')]),
                             (''arguments'', ident 3 ''done'')])])])])]]"



section \<open>Properties of the maps\<close>

lemma Map_set_set: "set (Map_set k v m) \<subseteq> insert (k, v) (set m)"
  by (induction m) (auto split: if_splits)

lemma Map_get_set: "Map_get m k = Some v \<Longrightarrow> (k, v) \<in> set m"
  by (simp add: Map_get_def map_of_SomeD)

lemma Map_get_Map_set: "Map_get (Map_set k v m) k = Some v"
  by (induction m) (auto simp: Map_get_def)

lemma list_all_Map_set:
  "list_all P m \<Longrightarrow> P (k, v) \<Longrightarrow> list_all P (Map_set k v m)"
  using Map_set_set [of k v m] by (auto simp: list_all_iff)

section \<open>The classifier on functions bound to a variable\<close>

text \<open>
  Claim C3, as the code has it. For a function expression or an arrow function whose
  parent is a variable declarator with an identifier binding, the classifier always
  decides to track. The name is the binding identifier's name when the function has no
  non-empty name of its own; a function expression that carries its own name is named
  after that name, because \<open>getFunctionInfo\<close> tests \<open>node.id\<close> first.
\<close>

theorem variable_bound_function_name:
  assumes "ntype node = FunctionExpression \<or> ntype node = ArrowFunctionExpression"
    and "ntype parent = VariableDeclarator"
    and "field ''id'' parent = Some binding"
    and "ntype binding = Identifier"
  shows "getFunctionInfo node parent =
           (case ownName node of Some nm \<Rightarrow> (nm, True) | None \<Rightarrow> (nname binding, True))"
  using assms by (auto simp: getFunctionInfo_def expressionInfo_def split: option.splits)

text \<open>The arrow function of \<^verbatim>\<open>const a = () => {}\<close> is tracked under the name \<open>a\<close>.\<close>

theorem variable_bound_function_name_witness:
  "(ntype exArrow = FunctionExpression \<or> ntype exArrow = ArrowFunctionExpression)
   \<and> ntype exArrowDeclarator = VariableDeclarator
   \<and> field ''id'' exArrowDeclarator = Some (ident 1 ''a'')
   \<and> ntype (ident 1 ''a'') = Identifier
   \<and> getFunctionInfo exArrow exArrowDeclarator = (''a'', True)"
proof -
  have h1: "ntype exArrow = FunctionExpression \<or> ntype exArrow = ArrowFunctionExpression"
    by (simp add: exArrow_def mk_def)
  have h2: "ntype exArrowDeclarator = VariableDeclarator"
    by (simp add: exArrowDeclarator_def mk_def)
  have h3: "field ''id'' exArrowDeclarator = Some (ident 1 ''a'')"
    by (simp add: exArrowDeclarator_def mk_def field_def)
  have h4: "ntype (ident 1 ''a'') = Identifier"
    by (simp add: ident_def)
  have own: "ownName exArrow = None"
    by (simp add: ownName_def exArrow_def mk_def field_def)
  from variable_bound_function_name [OF h1 h2 h3 h4] h1 h2 h3 h4 own
  show ?thesis by (simp add: ident_def)
qed

text \<open>
  Claim C3 as stated fails for \<^verbatim>\<open>const a = function b() {}\<close>: the parent is a
  variable declarator binding the identifier \<open>a\<close>, and the derived name is \<open>b\<close>.
\<close>

theorem variable_bound_function_name_counterexample:
  "ntype exNamedExpression = FunctionExpression
   \<and> ntype exDeclarator = VariableDeclarator
   \<and> field ''id'' exDeclarator = Some (ident 1 ''a'')
   \<and> getFunctionInfo exNamedExpression exDeclarator = (''b'', True)
   \<and> getFunctionInfo exNamedExpression exDeclarator \<noteq> (nname (ident 1 ''a''), True)"
  by (simp add: getFunctionInfo_def ownName_def field_def exNamedExpression_def
        exDeclarator_def ident_def mk_def)

section \<open>The summary on an empty inventory\<close>

text \<open>
  Claim C2 says that every percentage of the summary is 0 when nothing is trackable.
  In \<open>generateSummary\<close> only the usage efficiency is guarded by
  \<open>trackableFunctions > 0\<close>; the four other percentages divide by the number of
  trackable functions unguarded. On a run over no file at all the usage efficiency is 0
  and the async, sync, single-use and unused shares are \<open>NaN\<close>.
\<close>

theorem summary_of_empty_run:
  "usageEfficiency (statistics (analyzeFolder now folderPath [])) = Num 0
   \<and> asyncShare (statistics (analyzeFolder now folderPath [])) = NaN
   \<and> syncShare (statistics (analyzeFolder now folderPath [])) = NaN
   \<and> singleUseShare (statistics (analyzeFolder now folderPath [])) = NaN
   \<and> unusedShare (statistics (analyzeFolder now folderPath [])) = NaN"
  by (simp add: analyzeFolder_def generateSummary_def newAnalyzer_def roundPercent_def Let_def)

section \<open>A file that does not parse\<close>

lemma analyzeFunction_errors:
  "analyzeFunction n p f c (s\<lparr>errors := e\<rparr>) = (analyzeFunction n p f c s)\<lparr>errors := e\<rparr>"
  by (simp add: analyzeFunction_def Let_def)

lemma analyzeCall_errors:
  "analyzeCall n p f (s\<lparr>errors := e\<rparr>) = (analyzeCall n p f s)\<lparr>errors := e\<rparr>"
  by (simp add: analyzeCall_def Let_def split: option.splits)

lemma visit_errors:
  "visit f ev (cc, s\<lparr>errors := e\<rparr>) =
     (fst (visit f ev (cc, s)), (snd (visit f ev (cc, s)))\<lparr>errors := e\<rparr>)"
  by (cases ev) (simp_all add: Let_def analyzeFunction_errors analyzeCall_errors)

lemma fold_visit_errors:
  "fold (visit f) evs (cc, s\<lparr>errors := e\<rparr>) =
     (fst (fold (visit f) evs (cc, s)), (snd (fold (visit f) evs (cc, s)))\<lparr>errors := e\<rparr>)"
proof (induction evs arbitrary: cc s)
  case Nil
  show ?case by simp
next
  case (Cons ev evs)
  obtain cc' s' where v: "visit f ev (cc, s) = (cc', s')" by (cases "visit f ev (cc, s)")
  have "visit f ev (cc, s\<lparr>errors := e\<rparr>) = (cc', s'\<lparr>errors := e\<rparr>)"
    using visit_errors [where f = f and ev = ev and cc = cc and s = s and e = e] v by simp
  with v Cons.IH [where cc = cc' and s = s'] show ?case by simp
qed

lemma traverse_errors:
  "traverse f ast (s\<lparr>errors := e\<rparr>) = (traverse f ast s)\<lparr>errors := e\<rparr>"
  by (simp add: traverse_def fold_visit_errors)

lemma analyzeFunction_keeps_errors: "errors (analyzeFunction n p f c s) = errors s"
  by (simp add: analyzeFunction_def Let_def)

lemma analyzeCall_keeps_errors: "errors (analyzeCall n p f s) = errors s"
  by (simp add: analyzeCall_def Let_def split: option.splits)

lemma fold_visit_keeps_errors: "errors (snd (fold (visit f) evs (cc, s))) = errors s"
proof (induction evs arbitrary: cc s)
  case Nil
  show ?case by simp
next
  case (Cons ev evs)
  obtain cc' s' where v: "visit f ev (cc, s) = (cc', s')" by (cases "visit f ev (cc, s)")
  then have "errors s' = errors s"
    by (cases ev)
       (auto simp: Let_def analyzeFunction_keeps_errors analyzeCall_keeps_errors
             split: if_splits)
  with v Cons.IH [where cc = cc' and s = s'] show ?case by simp
qed

lemma traverse_keeps_errors: "errors (traverse f ast s) = errors s"
  by (simp add: traverse_def fold_visit_keeps_errors)

lemma analyzeFiles_append:
  "analyzeFiles (xs @ ys) s = analyzeFiles ys (analyzeFiles xs s)"
  by (induction xs arbitrary: s) auto

lemma analyzeFiles_core_errors:
  "core (analyzeFiles fs (s\<lparr>errors := e\<rparr>)) = core (analyzeFiles fs s)"
proof (induction fs arbitrary: s e)
  case Nil
  show ?case by (simp add: core_def)
next
  case (Cons a fs)
  obtain f src where a: "a = (f, src)" by (cases a)
  show ?case
  proof (cases src)
    case (Parsed ast)
    with a Cons.IH [where s = "traverse f ast s" and e = e] show ?thesis
      by (simp add: analyzeFile_def traverse_errors)
  next
    case (Unreadable m)
    with a Cons.IH [where s = s] show ?thesis by (simp add: analyzeFile_def)
  next
    case (Malformed m)
    with a Cons.IH [where s = s] show ?thesis by (simp add: analyzeFile_def)
next
    case (Untraversable m)
    with a Cons.IH [where s = s] show ?thesis by (simp add: analyzeFile_def)
  qed
qed

lemma analyzeFiles_errors_mono:
  "set (errors s) \<subseteq> set (errors (analyzeFiles fs s))"
proof (induction fs arbitrary: s)
  case Nil
  show ?case by simp
next
  case (Cons a fs)
  obtain f src where a: "a = (f, src)" by (cases a)
  show ?case
  proof (cases src)
    case (Parsed ast)
    with a Cons.IH [of "traverse f ast s"] show ?thesis
      by (simp add: analyzeFile_def traverse_keeps_errors)
  next
    case (Unreadable m)
    with a Cons.IH [of "s\<lparr>errors := errors s @ [''Error analyzing '' @ f @ '': '' @ m]\<rparr>"]
    show ?thesis by (auto simp: analyzeFile_def)
  next
    case (Malformed m)
    with a Cons.IH
      [of "s\<lparr>errors := errors s @ [''Error analyzing '' @ f @ '': Parse error: '' @ m]\<rparr>"]
    show ?thesis by (auto simp: analyzeFile_def)
next
    case (Untraversable m)
    with a Cons.IH [of "s\<lparr>errors := errors s @ [''Error analyzing '' @ f @ '': '' @ m]\<rparr>"]
    show ?thesis by (auto simp: analyzeFile_def)
  qed
qed

text \<open>
  Claim C5. When the text of a file does not parse, \<open>analyzeFile\<close> throws before it
  touches the maps; the loop of \<open>analyzeFolder\<close> records the message in \<open>errors\<close> and
  goes on with the next file. Whatever files come before and after, the declarations,
  the call aggregates and the skipped count at the end of the run are those of the run
  without the failed file, and its message is among the errors reported.
\<close>

theorem parse_failure_isolated:
  "analyzeFile (Malformed msg) file s = Inl (''Parse error: '' @ msg)
   \<and> analyzeFiles ((file, Malformed msg) # post) s =
       analyzeFiles post
         (s\<lparr>errors := errors s @ [''Error analyzing '' @ file @ '': Parse error: '' @ msg]\<rparr>)
   \<and> functionsMap (analyzeFiles (pre @ (file, Malformed msg) # post) s) =
       functionsMap (analyzeFiles (pre @ post) s)
   \<and> functionCalls (analyzeFiles (pre @ (file, Malformed msg) # post) s) =
       functionCalls (analyzeFiles (pre @ post) s)
   \<and> skippedFunctionCount (analyzeFiles (pre @ (file, Malformed msg) # post) s) =
       skippedFunctionCount (analyzeFiles (pre @ post) s)
   \<and> (''Error analyzing '' @ file @ '': Parse error: '' @ msg)
       \<in> set (errors (analyzeFiles (pre @ (file, Malformed msg) # post) s))"
proof -
  let ?m = "''Error analyzing '' @ file @ '': Parse error: '' @ msg"
  let ?s1 = "analyzeFiles pre s"
  have step: "analyzeFiles ((file, Malformed msg) # post) t =
      analyzeFiles post (t\<lparr>errors := errors t @ [?m]\<rparr>)" for t
    by (simp add: analyzeFile_def)
  have run: "analyzeFiles (pre @ (file, Malformed msg) # post) s =
      analyzeFiles post (?s1\<lparr>errors := errors ?s1 @ [?m]\<rparr>)"
    by (simp only: analyzeFiles_append step)
  have "core (analyzeFiles (pre @ (file, Malformed msg) # post) s) =
      core (analyzeFiles (pre @ post) s)"
    unfolding run analyzeFiles_core_errors by (simp only: analyzeFiles_append)
  moreover have "?m \<in> set (errors (analyzeFiles (pre @ (file, Malformed msg) # post) s))"
    using analyzeFiles_errors_mono [of "?s1\<lparr>errors := errors ?s1 @ [?m]\<rparr>" post]
    by (auto simp only: run simp_thms) simp
  ultimately show ?thesis
    using step [of s] by (simp add: core_def analyzeFile_def)
qed

section \<open>The manual walk and unreadable directories\<close>

lemma walk_result:
  "(walkable d \<longrightarrow>
      findJSFilesManually d filesList basePath = Inr (filesList @ sourceFilesIn d basePath))
   \<and> (\<not> walkable d \<longrightarrow> isl (findJSFilesManually d filesList basePath))"
  "(walkableEntries es \<longrightarrow>
      walkEntries es filesList basePath = Inr (filesList @ sourceFilesOf es basePath))
   \<and> (\<not> walkableEntries es \<longrightarrow> isl (walkEntries es filesList basePath))"
  by (induction d filesList basePath and es filesList basePath
       rule: findJSFilesManually_walkEntries.induct)
     (auto split: sum.splits)

text \<open>
  Claim C6, as the code has it. The manual walk has no handler around \<open>readdirSync\<close> and
  \<open>statSync\<close>. When every directory it enters can be listed and every entry can be
  examined, it returns the list it was given followed by the source files of the tree,
  in directory order. Otherwise the first failure ends the whole walk with that error:
  no list is returned and nothing is recorded.
\<close>

theorem manual_walk_result:
  "(walkable d \<longrightarrow>
      findJSFilesManually d filesList basePath = Inr (filesList @ sourceFilesIn d basePath))
   \<and> (\<not> walkable d \<longrightarrow> (\<exists>e. findJSFilesManually d filesList basePath = Inl e))"
proof (cases "walkable d")
  case True
  with walk_result(1) [of d filesList basePath] show ?thesis by simp
next
  case False
  with walk_result(1) [of d filesList basePath]
  have "isl (findJSFilesManually d filesList basePath)" by simp
  then obtain e where "findJSFilesManually d filesList basePath = Inl e"
    by (cases "findJSFilesManually d filesList basePath") auto
  with False show ?thesis by simp
qed

text \<open>A tree whose only unreadable directory is \<open>node_modules\<close> is walked to the end;
  the tree with the unreadable directory \<open>secret\<close> is not.\<close>

theorem manual_walk_result_witness:
  "walkable exReadableTree
   \<and> findJSFilesManually exReadableTree [] [] = Inr [''a.js'', ''lib/X.TSX'', ''b.ts'']
   \<and> \<not> walkable exUnreadableTree
   \<and> (\<exists>e. findJSFilesManually exUnreadableTree [] [] = Inl e)"
proof -
  have w: "walkable exReadableTree"
    by (simp add: exReadableTree_def isExcludedDir_def)
  have nw: "\<not> walkable exUnreadableTree"
    by (simp add: exUnreadableTree_def isExcludedDir_def)
  have fs: "sourceFilesIn exReadableTree [] = [''a.js'', ''lib/X.TSX'', ''b.ts'']"
    by code_simp
  from manual_walk_result [of exReadableTree "[]" "[]"]
       manual_walk_result [of exUnreadableTree "[]" "[]"] w nw fs
  show ?thesis by simp
qed

text \<open>
  Claim C6 as stated fails on a directory that holds \<open>a.js\<close>, a subdirectory
  \<open>secret\<close> that cannot be listed, and \<open>b.ts\<close>: the readable part of the tree holds two
  source files, and the walk returns none of them but the error of \<open>secret\<close>.
\<close>

theorem manual_walk_counterexample:
  "sourceFilesIn exUnreadableTree [] = [''a.js'', ''b.ts'']
   \<and> findJSFilesManually exUnreadableTree [] [] = Inl (ReaddirError ''secret'')"
  by (simp add: exUnreadableTree_def isExcludedDir_def isSourceFile_def extname_def
        toLowerCase_def pathJoin_def isUpper_def)

section \<open>The aggregate invariant\<close>

lemma analyzeFunction_inv: "aggregateInv s \<Longrightarrow> aggregateInv (analyzeFunction n p f c s)"
  by (simp add: analyzeFunction_def aggregateInv_def Let_def list_all_Map_set)

lemma analyzeCall_inv: "aggregateInv s \<Longrightarrow> aggregateInv (analyzeCall n p f s)"
proof -
  assume inv: "aggregateInv s"
  show ?thesis
  proof (cases "getCallName n")
    case None
    with inv show ?thesis by (simp add: analyzeCall_def)
  next
    case (Some nm)
    let ?fc = "if \<not> Map_has (functionCalls s) nm
               then Map_set nm \<lparr>callers = [], totalCalls = 0\<rparr> (functionCalls s)
               else functionCalls s"
    have fc: "list_all (\<lambda>(nm, ci). totalCalls ci = length (callers ci)) ?fc"
      using inv by (simp add: aggregateInv_def list_all_Map_set)
    show ?thesis
    proof (cases "Map_get ?fc nm")
      case None
      with Some inv fc show ?thesis
        by (simp add: analyzeCall_def aggregateInv_def Let_def)
    next
      case (Some ci)
      then have "(nm, ci) \<in> set ?fc" by (rule Map_get_set)
      with fc have "totalCalls ci = length (callers ci)" by (auto simp: list_all_iff)
      with \<open>getCallName n = Some nm\<close> Some inv fc show ?thesis
        by (simp add: analyzeCall_def aggregateInv_def Let_def list_all_Map_set)
    qed
  qed
qed

lemma visit_inv: "aggregateInv s \<Longrightarrow> aggregateInv (snd (visit f ev (cc, s)))"
  by (cases ev) (simp_all add: Let_def analyzeFunction_inv analyzeCall_inv)

lemma fold_visit_inv:
  "aggregateInv s \<Longrightarrow> aggregateInv (snd (fold (visit f) evs (cc, s)))"
proof (induction evs arbitrary: cc s)
  case Nil
  then show ?case by simp
next
  case (Cons ev evs)
  obtain cc' s' where v: "visit f ev (cc, s) = (cc', s')" by (cases "visit f ev (cc, s)")
  with visit_inv [OF Cons.prems, of f ev cc] have "aggregateInv s'" by simp
  from Cons.IH [OF this] v show ?case by simp
qed

lemma analyzeFiles_inv: "aggregateInv s \<Longrightarrow> aggregateInv (analyzeFiles fs s)"
proof (induction fs arbitrary: s)
  case Nil
  then show ?case by simp
next
  case (Cons a fs)
  obtain f src where a: "a = (f, src)" by (cases a)
  have "aggregateInv (case analyzeFile src f s of Inr s' \<Rightarrow> s'
           | Inl msg \<Rightarrow> s\<lparr>errors := errors s @ [''Error analyzing '' @ f @ '': '' @ msg]\<rparr>)"
    using Cons.prems
    by (cases src) (simp_all add: analyzeFile_def traverse_def fold_visit_inv, simp_all add: aggregateInv_def)
  from Cons.IH [OF this] a show ?case by simp
qed

text \<open>
  Claim C4. In every call aggregate the stored \<open>totalCalls\<close> is the length of
  \<open>callers\<close>: in the state of a new analyzer, after any number of files, after any
  further sequence of visitor events of the file being walked (so at every point between
  two visitor calls), and after one more \<open>analyzeCall\<close> or \<open>analyzeFunction\<close> from
  there.
\<close>

theorem totalCalls_eq_callers:
  "aggregateInv newAnalyzer
   \<and> aggregateInv (analyzeFiles jsFiles newAnalyzer)
   \<and> aggregateInv (snd (fold (visit file) evs (cc, analyzeFiles jsFiles newAnalyzer)))
   \<and> aggregateInv
       (analyzeCall n p file (snd (fold (visit file) evs (cc, analyzeFiles jsFiles newAnalyzer))))
   \<and> aggregateInv
       (analyzeFunction n p file cls
          (snd (fold (visit file) evs (cc, analyzeFiles jsFiles newAnalyzer))))"
proof -
  have 0: "aggregateInv newAnalyzer" by (simp add: aggregateInv_def newAnalyzer_def)
  have 1: "aggregateInv (analyzeFiles jsFiles newAnalyzer)" by (rule analyzeFiles_inv [OF 0])
  have 2: "aggregateInv (snd (fold (visit file) evs (cc, analyzeFiles jsFiles newAnalyzer)))"
    by (rule fold_visit_inv [OF 1])
  from 0 1 2 analyzeCall_inv [OF 2] analyzeFunction_inv [OF 2] show ?thesis by blast
qed

text \<open>On the example file the aggregates of \<open>a\<close>, \<open>c\<close>, \<open>b\<close> and \<open>main\<close> hold 2, 2, 3
  and 0 call records.\<close>

theorem totalCalls_eq_callers_witness:
  "aggregateInv (analyzeFiles [(''app.js'', Parsed exUsage)] newAnalyzer)
   \<and> map (\<lambda>(nm, ci). (nm, totalCalls ci, length (callers ci)))
        (functionCalls (analyzeFiles [(''app.js'', Parsed exUsage)] newAnalyzer))
       = [(''a'', 2, 2), (''c'', 2, 2), (''b'', 3, 3), (''main'', 0, 0)]"
proof -
  have "map (\<lambda>(nm, ci). (nm, totalCalls ci, length (callers ci)))
        (functionCalls (analyzeFiles [(''app.js'', Parsed exUsage)] newAnalyzer))
       = [(''a'', 2, 2), (''c'', 2, 2), (''b'', 3, 3), (''main'', 0, 0)]"
    by code_simp
  with totalCalls_eq_callers [of "[(''app.js'', Parsed exUsage)]" "''app.js''" "[]" None]
  show ?thesis by simp
qed

section \<open>The well-used list\<close>

lemma fold_usageStep:
  "fold (usageStep s) xs (u, si, m) =
     (u @ filter (\<lambda>f. callCount s f = 0) (map snd xs),
      si @ concat (map (singleEntry s) (map snd xs)),
      m @ concat (map (multiEntry s) (map snd xs)))"
proof (induction xs arbitrary: u si m)
  case Nil
  show ?case by simp
next
  case (Cons x xs)
  show ?case
  proof (cases "Map_get (functionCalls s) (fname (snd x))")
    case None
    then have "usageStep s x (u, si, m) = (u @ [snd x], si, m)"
      by (simp add: usageStep_def)
    with None Cons.IH [of "u @ [snd x]" si m] show ?thesis
      by (simp add: callCount_def singleEntry_def multiEntry_def)
  next
    case (Some ci)
    consider "totalCalls ci = 0" | "totalCalls ci = 1" | "2 \<le> totalCalls ci" by linarith
    then show ?thesis
    proof cases
      case 1
      with Some have "usageStep s x (u, si, m) = (u @ [snd x], si, m)"
        by (simp add: usageStep_def)
      with 1 Some Cons.IH [of "u @ [snd x]" si m] show ?thesis
        by (simp add: callCount_def singleEntry_def multiEntry_def)
    next
      case 2
      with Some have "usageStep s x (u, si, m) = (u, si @ [(snd x, ci)], m)"
        by (simp add: usageStep_def)
      with 2 Some Cons.IH [of u "si @ [(snd x, ci)]" m] show ?thesis
        by (simp add: callCount_def singleEntry_def multiEntry_def)
    next
      case 3
      with Some have "usageStep s x (u, si, m) = (u, si, m @ [(snd x, ci)])"
        by (simp add: usageStep_def)
      with 3 Some Cons.IH [of u si "m @ [(snd x, ci)]"] show ?thesis
        by (simp add: callCount_def singleEntry_def multiEntry_def)
    qed
  qed
qed

lemma usageTiers_eq:
  "usageTiers s =
     (filter (\<lambda>f. callCount s f = 0) (map snd (functionsMap s)),
      concat (map (singleEntry s) (map snd (functionsMap s))),
      concat (map (multiEntry s) (map snd (functionsMap s))))"
  by (simp add: usageTiers_def fold_usageStep)

lemma multiEntry_props:
  "e \<in> set (concat (map (multiEntry s) fs)) \<Longrightarrow>
     2 \<le> totalCalls (snd e) \<and> Map_get (functionCalls s) (fname (fst e)) = Some (snd e)"
  by (auto simp: multiEntry_def split: option.splits if_splits)

lemma multiEntry_names:
  "map fst (concat (map (multiEntry s) fs)) = filter (\<lambda>f. 2 \<le> callCount s f) fs"
  by (induction fs) (auto simp: multiEntry_def callCount_def split: option.splits)

lemma insertSorted_set: "set (insertSorted cmp x ys) = insert x (set ys)"
  by (induction ys) auto

lemma arraySort_set_gen: "set (fold (insertSorted cmp) xs acc) = set xs \<union> set acc"
  by (induction xs arbitrary: acc) (auto simp: insertSorted_set)

lemma arraySort_set: "set (arraySort cmp xs) = set xs"
  by (simp add: arraySort_def arraySort_set_gen)

lemma insertSorted_desc: "descending ys \<Longrightarrow> descending (insertSorted byCallCount x ys)"
  by (induction ys) (auto simp: insertSorted_set byCallCount_def)

lemma insertSorted_filter:
  "descending ys \<Longrightarrow>
   filter (\<lambda>e. totalCalls (snd e) = k) (insertSorted byCallCount x ys) =
   filter (\<lambda>e. totalCalls (snd e) = k) ys @ (if totalCalls (snd x) = k then [x] else [])"
proof (induction ys)
  case Nil
  show ?case by simp
next
  case (Cons y ys)
  show ?case
  proof (cases "byCallCount x y < 0")
    case True
    then have lt: "totalCalls (snd y) < totalCalls (snd x)" by (simp add: byCallCount_def)
    have "\<forall>e \<in> set (y # ys). totalCalls (snd e) < totalCalls (snd x)"
      using Cons.prems lt by auto
    then have "totalCalls (snd x) = k \<Longrightarrow> filter (\<lambda>e. totalCalls (snd e) = k) (y # ys) = []"
      by (auto simp: filter_empty_conv)
    with True show ?thesis by auto
  next
    case False
    with Cons show ?thesis by simp
  qed
qed

lemma fold_insertSorted:
  "descending acc \<Longrightarrow>
   descending (fold (insertSorted byCallCount) xs acc) \<and>
   filter (\<lambda>e. totalCalls (snd e) = k) (fold (insertSorted byCallCount) xs acc) =
   filter (\<lambda>e. totalCalls (snd e) = k) acc @ filter (\<lambda>e. totalCalls (snd e) = k) xs"
proof (induction xs arbitrary: acc)
  case Nil
  then show ?case by simp
next
  case (Cons x xs)
  from Cons.IH [OF insertSorted_desc [OF Cons.prems, of x]]
       insertSorted_filter [OF Cons.prems, of k x]
  show ?case by simp
qed

lemma arraySort_desc: "descending (arraySort byCallCount xs)"
  using fold_insertSorted [of "[]" xs] by (simp add: arraySort_def)

lemma arraySort_stable:
  "filter (\<lambda>e. totalCalls (snd e) = k) (arraySort byCallCount xs) =
   filter (\<lambda>e. totalCalls (snd e) = k) xs"
  using fold_insertSorted [of "[]" xs k] by (simp add: arraySort_def)

text \<open>
  Claim C7. The well-used list that \<open>generateUsageReport\<close> prints is in descending
  order of \<open>totalCalls\<close>; for every count \<open>k\<close>, its entries with that count are the
  entries of \<open>multiUse\<close> with that count in the same order; \<open>multiUse\<close> holds the
  declarations with two calls or more in the order of \<open>this.functions\<close>, that is in
  discovery order; and every entry has at least two calls and carries the aggregate of
  its name.
\<close>

theorem well_used_sorted:
  "descending (snd (snd (generateUsageReport s)))
   \<and> filter (\<lambda>e. totalCalls (snd e) = k) (snd (snd (generateUsageReport s))) =
       filter (\<lambda>e. totalCalls (snd e) = k) (snd (snd (usageTiers s)))
   \<and> map fst (snd (snd (usageTiers s))) =
       filter (\<lambda>f. 2 \<le> callCount s f) (map snd (functionsMap s))
   \<and> list_all (\<lambda>e. 2 \<le> totalCalls (snd e)
                   \<and> Map_get (functionCalls s) (fname (fst e)) = Some (snd e))
        (snd (snd (generateUsageReport s)))"
proof -
  let ?multi = "concat (map (multiEntry s) (map snd (functionsMap s)))"
  have t: "snd (snd (usageTiers s)) = ?multi" by (simp add: usageTiers_eq)
  have r: "snd (snd (generateUsageReport s)) = arraySort byCallCount ?multi"
    by (simp add: generateUsageReport_def usageTiers_eq)
  have la: "list_all (\<lambda>e. 2 \<le> totalCalls (snd e)
                   \<and> Map_get (functionCalls s) (fname (fst e)) = Some (snd e))
        (arraySort byCallCount ?multi)"
    unfolding list_all_iff arraySort_set using multiEntry_props by blast
  have n: "map fst ?multi = filter (\<lambda>f. 2 \<le> callCount s f) (map snd (functionsMap s))"
    by (rule multiEntry_names)
  from la n arraySort_desc [of ?multi] arraySort_stable [of k ?multi]
  show ?thesis unfolding r t by blast
qed

text \<open>On the example file \<open>multiUse\<close> is \<open>a\<close>, \<open>c\<close>, \<open>b\<close> with 2, 2 and 3 calls, and the
  list printed is \<open>b\<close>, \<open>a\<close>, \<open>c\<close>.\<close>

theorem well_used_sorted_witness:
  "map (\<lambda>e. (fname (fst e), totalCalls (snd e)))
     (snd (snd (usageTiers (analyzeFiles [(''app.js'', Parsed exUsage)] newAnalyzer))))
     = [(''a'', 2), (''c'', 2), (''b'', 3)]
   \<and> map (\<lambda>e. (fname (fst e), totalCalls (snd e)))
     (snd (snd (generateUsageReport (analyzeFiles [(''app.js'', Parsed exUsage)] newAnalyzer))))
     = [(''b'', 3), (''a'', 2), (''c'', 2)]
   \<and> descending
     (snd (snd (generateUsageReport (analyzeFiles [(''app.js'', Parsed exUsage)] newAnalyzer))))"
proof -
  have a: "map (\<lambda>e. (fname (fst e), totalCalls (snd e)))
     (snd (snd (usageTiers (analyzeFiles [(''app.js'', Parsed exUsage)] newAnalyzer))))
     = [(''a'', 2), (''c'', 2), (''b'', 3)]"
    by code_simp
  have b: "map (\<lambda>e. (fname (fst e), totalCalls (snd e)))
     (snd (snd (generateUsageReport (analyzeFiles [(''app.js'', Parsed exUsage)] newAnalyzer))))
     = [(''b'', 3), (''a'', 2), (''c'', 2)]"
    by code_simp
  from a b well_used_sorted [of "analyzeFiles [(''app.js'', Parsed exUsage)] newAnalyzer" 2]
  show ?thesis by simp
qed


section \<open>Suspension points and nested functions\<close>

lemma descendants_kids: "descendants n = descendantsOf (kids n)"
  by (cases n) simp

lemma ownDescendants_kids: "ownDescendants n = ownDescendantsOf (kids n)"
  by (cases n) simp

lemma kid_in_descendantsOf: "(k, c) \<in> set ks \<Longrightarrow> c \<in> set (descendantsOf ks)"
  by (induction ks) auto

lemma field_in_descendants: "field k n = Some c \<Longrightarrow> c \<in> set (descendants n)"
  by (auto simp: field_def descendants_kids dest: map_of_SomeD kid_in_descendantsOf)

lemma descendants_trans:
  "c \<in> set (descendants n) \<Longrightarrow> set (descendants c) \<subseteq> set (descendants n)"
  "c \<in> set (descendantsOf ks) \<Longrightarrow> set (descendants c) \<subseteq> set (descendantsOf ks)"
  by (induction n and ks rule: descendants_descendantsOf.induct) auto

lemma own_subset:
  "set (ownDescendants n) \<subseteq> set (descendants n)"
  "set (ownDescendantsOf ks) \<subseteq> set (descendantsOf ks)"
  by (induction n and ks rule: ownDescendants_ownDescendantsOf.induct) auto

lemma own_eq:
  "list_all (\<lambda>c. \<not> isFunction c) (descendants n) \<Longrightarrow> ownDescendants n = descendants n"
  "list_all (\<lambda>c. \<not> isFunction c) (descendantsOf ks) \<Longrightarrow> ownDescendantsOf ks = descendantsOf ks"
  by (induction n and ks rule: ownDescendants_ownDescendantsOf.induct) auto

lemma analyzeFunction_tracked:
  assumes "getFunctionInfo node parent = (nm, True)" and "\<not> isBlacklistedFunction nm"
  shows "Map_get (functionsMap (analyzeFunction node parent file cls s))
           (file @ '':'' @ nm @ '':'' @ showLine (nline node)) =
         Some \<lparr>fname = nm, fasync = nasync node, ffile = file, fclass = cls,
               fline = nline node, awaitedOperations = collectAwaited node,
               promiseOperations = collectPromise node, calls = [], awaitedCalls = []\<rparr>"
  using assms by (simp add: analyzeFunction_def Let_def Map_get_Map_set)

lemma combinator_is_promise: "isCombinatorCall c \<Longrightarrow> isPromiseOperation c"
  by (auto simp: isCombinatorCall_def isPromiseOperation_def split: option.splits)

text \<open>
  Claim C1, as the code has it. The inner walk of \<open>analyzeFunction\<close> does not stop at
  nested functions. For a declaration that is tracked and not blacklisted, the recorded
  awaited operations are the await expressions of all nodes below the declaration's
  node, in source order; every recorded promise operation is a call expression below
  the declaration's node, and every call of \<open>then\<close>, \<open>catch\<close> or \<open>finally\<close> through a
  member access below the node is recorded. An await or such a call inside a nested
  function is therefore recorded for the enclosing declaration as well. The awaits of
  the declaration's own body are among those recorded, and when no function is nested in
  the declaration every recorded point lies in its own body. (Which other calls count
  as promise operations is not part of the statement.)
\<close>

theorem suspension_points_cover_subtree:
  assumes "getFunctionInfo node parent = (nm, True)" and "\<not> isBlacklistedFunction nm"
  shows "\<exists>f. Map_get (functionsMap (analyzeFunction node parent file cls s))
               (file @ '':'' @ nm @ '':'' @ showLine (nline node)) = Some f
           \<and> awaitedOperations f =
               map (\<lambda>c. (nline c, ntype c))
                 (filter (\<lambda>c. ntype c = AwaitExpression) (descendants node))
           \<and> set (promiseOperations f) \<subseteq> set (callPoints (descendants node))
           \<and> (\<forall>c. c \<in> set (descendants node) \<and> ntype c = CallExpression
                  \<and> isCombinatorCall c
                \<longrightarrow> (nline c, CallExpression) \<in> set (promiseOperations f))
           \<and> (\<forall>inner a. inner \<in> set (descendants node) \<and> isFunction inner
                  \<and> a \<in> set (descendants inner) \<and> ntype a = AwaitExpression
                \<longrightarrow> (nline a, AwaitExpression) \<in> set (awaitedOperations f))
           \<and> (\<forall>inner c. inner \<in> set (descendants node) \<and> isFunction inner
                  \<and> c \<in> set (descendants inner) \<and> ntype c = CallExpression
                  \<and> isCombinatorCall c
                \<longrightarrow> (nline c, CallExpression) \<in> set (promiseOperations f))
           \<and> set (ownAwaited node) \<subseteq> set (awaitedOperations f)
           \<and> (noNestedFunction node \<longrightarrow>
                awaitedOperations f = ownAwaited node
                \<and> set (promiseOperations f) \<subseteq> set (callPoints (ownDescendants node)))"
proof -
  let ?f = "\<lparr>fname = nm, fasync = nasync node, ffile = file, fclass = cls,
               fline = nline node, awaitedOperations = collectAwaited node,
               promiseOperations = collectPromise node, calls = [], awaitedCalls = []\<rparr>"
  have below: "a \<in> set (descendants node)"
    if "inner \<in> set (descendants node)" "a \<in> set (descendants inner)" for inner a
    using that descendants_trans(1) [of inner node] by blast
  have aw: "(nline a, AwaitExpression) \<in> set (collectAwaited node)"
    if "a \<in> set (descendants node)" "ntype a = AwaitExpression" for a
    using that by (force simp: collectAwaited_def)
  have pr: "(nline c, CallExpression) \<in> set (collectPromise node)"
    if "c \<in> set (descendants node)" "ntype c = CallExpression" "isCombinatorCall c" for c
    using that combinator_is_promise [of c] by (force simp: collectPromise_def)
  have calls: "set (collectPromise node) \<subseteq> set (callPoints (descendants node))"
    by (auto simp: collectPromise_def callPoints_def)
  have sub1: "set (ownAwaited node) \<subseteq> set (collectAwaited node)"
    using own_subset(1) [of node] by (auto simp: ownAwaited_def collectAwaited_def)
  have eq: "collectAwaited node = ownAwaited node
      \<and> set (collectPromise node) \<subseteq> set (callPoints (ownDescendants node))"
    if "noNestedFunction node"
    using that calls
    by (simp add: noNestedFunction_def own_eq(1) collectAwaited_def ownAwaited_def)
  have f: "Map_get (functionsMap (analyzeFunction node parent file cls s))
               (file @ '':'' @ nm @ '':'' @ showLine (nline node)) = Some ?f"
    by (rule analyzeFunction_tracked [OF assms])
  have 1: "awaitedOperations ?f =
               map (\<lambda>c. (nline c, ntype c))
                 (filter (\<lambda>c. ntype c = AwaitExpression) (descendants node))"
    by (simp add: collectAwaited_def)
  have 2: "set (promiseOperations ?f) \<subseteq> set (callPoints (descendants node))"
    using calls by simp
  have 3: "\<forall>c. c \<in> set (descendants node) \<and> ntype c = CallExpression
                  \<and> isCombinatorCall c
                \<longrightarrow> (nline c, CallExpression) \<in> set (promiseOperations ?f)"
    using pr by simp
  have 4: "\<forall>inner a. inner \<in> set (descendants node) \<and> isFunction inner
                  \<and> a \<in> set (descendants inner) \<and> ntype a = AwaitExpression
                \<longrightarrow> (nline a, AwaitExpression) \<in> set (awaitedOperations ?f)"
  proof (intro allI impI)
    fix inner a
    assume h: "inner \<in> set (descendants node) \<and> isFunction inner
                  \<and> a \<in> set (descendants inner) \<and> ntype a = AwaitExpression"
    then have "a \<in> set (descendants node)" using below by blast
    with h aw show "(nline a, AwaitExpression) \<in> set (awaitedOperations ?f)" by simp
  qed
  have 5: "\<forall>inner c. inner \<in> set (descendants node) \<and> isFunction inner
                  \<and> c \<in> set (descendants inner) \<and> ntype c = CallExpression
                  \<and> isCombinatorCall c
                \<longrightarrow> (nline c, CallExpression) \<in> set (promiseOperations ?f)"
  proof (intro allI impI)
    fix inner c
    assume h: "inner \<in> set (descendants node) \<and> isFunction inner
                  \<and> c \<in> set (descendants inner) \<and> ntype c = CallExpression
                  \<and> isCombinatorCall c"
    then have "c \<in> set (descendants node)" using below by blast
    with h pr show "(nline c, CallExpression) \<in> set (promiseOperations ?f)" by simp
  qed
  have 6: "set (ownAwaited node) \<subseteq> set (awaitedOperations ?f)"
    using sub1 by simp
  have 7: "noNestedFunction node \<longrightarrow>
                awaitedOperations ?f = ownAwaited node
                \<and> set (promiseOperations ?f) \<subseteq> set (callPoints (ownDescendants node))"
    using eq by simp
  show ?thesis
    by (rule exI [of _ ?f]) (intro conjI f 1 2 3 4 5 6 7)
qed

text \<open>For \<open>outer\<close> of the first example the await of line 3, and for \<open>load\<close> of the
  second the chained call of line 3, both inside the nested arrow function, are
  recorded.\<close>

theorem suspension_points_cover_subtree_witness:
  "getFunctionInfo exOuter (block 1 [exOuter]) = (''outer'', True)
   \<and> \<not> isBlacklistedFunction ''outer''
   \<and> (\<exists>f. Map_get (functionsMap
                 (analyzeFunction exOuter (block 1 [exOuter]) ''n.js'' None newAnalyzer))
               ''n.js:outer:1'' = Some f
          \<and> awaitedOperations f = [(Some 3, AwaitExpression)])
   \<and> getFunctionInfo exLoad (block 1 [exLoad]) = (''load'', True)
   \<and> \<not> isBlacklistedFunction ''load''
   \<and> (\<exists>f. Map_get (functionsMap
                 (analyzeFunction exLoad (block 1 [exLoad]) ''n.js'' None newAnalyzer))
               ''n.js:load:1'' = Some f
          \<and> awaitedOperations f = []
          \<and> (Some 3, CallExpression) \<in> set (promiseOperations f))"
proof -
  have h1: "getFunctionInfo exOuter (block 1 [exOuter]) = (''outer'', True)" by code_simp
  have h2: "\<not> isBlacklistedFunction ''outer''" by code_simp
  have a: "map (\<lambda>c. (nline c, ntype c))
             (filter (\<lambda>c. ntype c = AwaitExpression) (descendants exOuter))
           = [(Some 3, AwaitExpression)]"
    by code_simp
  have l: "''n.js'' @ '':'' @ ''outer'' @ '':'' @ showLine (nline exOuter) = ''n.js:outer:1''"
    by code_simp
  from suspension_points_cover_subtree [OF h1 h2, of "''n.js''" None newAnalyzer]
  obtain f where
    "Map_get (functionsMap (analyzeFunction exOuter (block 1 [exOuter]) ''n.js'' None newAnalyzer))
       (''n.js'' @ '':'' @ ''outer'' @ '':'' @ showLine (nline exOuter)) = Some f"
    "awaitedOperations f = map (\<lambda>c. (nline c, ntype c))
             (filter (\<lambda>c. ntype c = AwaitExpression) (descendants exOuter))"
    by blast
  then have o: "\<exists>f. Map_get (functionsMap
                 (analyzeFunction exOuter (block 1 [exOuter]) ''n.js'' None newAnalyzer))
               ''n.js:outer:1'' = Some f
          \<and> awaitedOperations f = [(Some 3, AwaitExpression)]"
    unfolding l a by blast
  have g1: "getFunctionInfo exLoad (block 1 [exLoad]) = (''load'', True)" by code_simp
  have g2: "\<not> isBlacklistedFunction ''load''" by code_simp
  define c where "c = mk CallExpression 3
      [(''callee'', mk MemberExpression 3
          [(''object'', callTo 3 ''fetchIt''), (''property'', ident 3 ''then'')]),
       (''arguments'', ident 3 ''done'')]"
  have c1: "c \<in> set (descendants exLoad)" unfolding c_def by code_simp
  have c2: "ntype c = CallExpression \<and> isCombinatorCall c \<and> nline c = Some 3"
    unfolding c_def by code_simp
  have b: "map (\<lambda>c. (nline c, ntype c))
             (filter (\<lambda>c. ntype c = AwaitExpression) (descendants exLoad)) = []"
    by code_simp
  have m: "''n.js'' @ '':'' @ ''load'' @ '':'' @ showLine (nline exLoad) = ''n.js:load:1''"
    by code_simp
  from suspension_points_cover_subtree [OF g1 g2, of "''n.js''" None newAnalyzer]
  obtain f where f:
    "Map_get (functionsMap (analyzeFunction exLoad (block 1 [exLoad]) ''n.js'' None newAnalyzer))
       (''n.js'' @ '':'' @ ''load'' @ '':'' @ showLine (nline exLoad)) = Some f"
    "awaitedOperations f = map (\<lambda>c. (nline c, ntype c))
             (filter (\<lambda>c. ntype c = AwaitExpression) (descendants exLoad))"
    "\<forall>c. c \<in> set (descendants exLoad) \<and> ntype c = CallExpression \<and> isCombinatorCall c
         \<longrightarrow> (nline c, CallExpression) \<in> set (promiseOperations f)"
    by blast
  from f(3) c1 c2 have "(nline c, CallExpression) \<in> set (promiseOperations f)" by blast
  with c2 have p: "(Some 3, CallExpression) \<in> set (promiseOperations f)" by simp
  from f(1) have f1: "Map_get (functionsMap
                 (analyzeFunction exLoad (block 1 [exLoad]) ''n.js'' None newAnalyzer))
               ''n.js:load:1'' = Some f"
    unfolding m .
  from f(2) have f2: "awaitedOperations f = []" unfolding b .
  from f1 f2 p have "\<exists>f. Map_get (functionsMap
                 (analyzeFunction exLoad (block 1 [exLoad]) ''n.js'' None newAnalyzer))
               ''n.js:load:1'' = Some f
          \<and> awaitedOperations f = []
          \<and> (Some 3, CallExpression) \<in> set (promiseOperations f)"
    by blast
  with o h1 h2 g1 g2 show ?thesis by blast
qed


text \<open>
  Claim C1 as stated fails on \<^verbatim>\<open>function outer() { const inner = async () => { await g(); }; }\<close>:
  the only await lies in the body of the nested arrow function, the body of \<open>outer\<close>
  itself has none, and yet the await of line 3 is recorded for \<open>outer\<close> (which is
  then reported as missing \<open>async\<close>).
\<close>

theorem suspension_points_counterexample:
  "ownAwaited exOuter = []
   \<and> Map_get (functionsMap (analyzeFiles [(''n.js'', Parsed exNested)] newAnalyzer))
        ''n.js:outer:1''
       = Some \<lparr>fname = ''outer'', fasync = False, ffile = ''n.js'', fclass = None,
           fline = Some 1, awaitedOperations = [(Some 3, AwaitExpression)],
           promiseOperations = [], calls = [], awaitedCalls = []\<rparr>
   \<and> map (\<lambda>e. (fname (fst e), snd e))
        (generateAsyncValidationReport (analyzeFiles [(''n.js'', Parsed exNested)] newAnalyzer))
       = [(''outer'', [MissingAsync])]"
  by code_simp

section \<open>Names that no call resolves to\<close>

text \<open>A call is counted under the name of an identifier. In a parsed tree no identifier
  has a space or a bracket in its name, so an aggregate whose name has one never
  receives a call record, and a declaration of such a name is always listed unused.\<close>

lemma events_nodes:
  "Enter p n \<in> set (events parent c) \<Longrightarrow> n = c \<or> n \<in> set (descendants c)"
  "Enter p n \<in> set (eventsOf parent ks) \<Longrightarrow> n \<in> set (descendantsOf ks)"
  by (induction parent c and parent ks rule: events_eventsOf.induct) auto

lemma getCallName_plain:
  assumes "list_all wfNode (descendants n)" and "getCallName n = Some nm"
  shows "plainName nm"
proof -
  from assms(2) obtain callee where c: "field ''callee'' n = Some callee"
    by (auto simp: getCallName_def split: option.splits)
  then have cin: "callee \<in> set (descendants n)" by (rule field_in_descendants)
  show ?thesis
  proof (cases "ntype callee = Identifier")
    case True
    with c assms(2) have "nm = nname callee" by (simp add: getCallName_def)
    moreover from cin assms(1) have "wfNode callee" by (simp add: list_all_iff)
    ultimately show ?thesis using True by (simp add: wfNode_def)
  next
    case False
    with c assms(2) obtain pr where pr: "field ''property'' callee = Some pr"
        "ntype pr = Identifier" "nm = nname pr"
      by (auto simp: getCallName_def split: option.splits if_splits)
    from pr(1) have "pr \<in> set (descendants callee)" by (rule field_in_descendants)
    with descendants_trans(1) [OF cin] have "pr \<in> set (descendants n)" by blast
    with assms(1) have "wfNode pr" by (simp add: list_all_iff)
    with pr show ?thesis by (simp add: wfNode_def)
  qed
qed

lemma wfTree_callOk:
  assumes "wfTree ast" and "ev \<in> set (eventsOf ast (kids ast))"
  shows "callOk ev"
proof (cases ev)
  case (Exit n)
  then show ?thesis by (simp add: callOk_def)
next
  case (Enter p n)
  with assms(2) events_nodes(2) [of p n ast "kids ast"]
  have nin: "n \<in> set (descendants ast)" by (simp add: descendants_kids)
  from descendants_trans(1) [OF nin] assms(1)
  have "list_all wfNode (descendants n)" by (auto simp: wfTree_def list_all_iff)
  from getCallName_plain [OF this] Enter show ?thesis
    by (auto simp: callOk_def split: option.splits)
qed

lemma analyzeFunction_namesInv: "namesInv s \<Longrightarrow> namesInv (analyzeFunction n p f c s)"
  by (simp add: analyzeFunction_def namesInv_def Let_def list_all_Map_set
        neverCalledUnlessPlain_def)

lemma analyzeCall_namesInv:
  assumes "namesInv s" and "callOk (Enter p n)"
  shows "namesInv (analyzeCall n p f s)"
proof (cases "getCallName n")
  case None
  with assms show ?thesis by (simp add: analyzeCall_def)
next
  case (Some nm)
  with assms(2) have pl: "plainName nm" by (simp add: callOk_def)
  define fc where "fc = (if \<not> Map_has (functionCalls s) nm
             then Map_set nm \<lparr>callers = [], totalCalls = 0\<rparr> (functionCalls s)
             else functionCalls s)"
  have fc: "list_all neverCalledUnlessPlain fc"
    using assms(1)
    by (simp add: fc_def namesInv_def list_all_Map_set neverCalledUnlessPlain_def)
  have upd: "list_all neverCalledUnlessPlain (Map_set nm v fc)" for v
    by (rule list_all_Map_set [OF fc]) (simp add: pl neverCalledUnlessPlain_def)
  have "analyzeCall n p f s =
      (if nm = [] then s
       else case Map_get fc nm of
              None \<Rightarrow> s\<lparr>functionCalls := fc\<rparr>
            | Some ci \<Rightarrow>
                s\<lparr>functionCalls := Map_set nm
                    \<lparr>callers = callers ci
                       @ [\<lparr>cfile = f, cline = nline n, awaited = (ntype p = AwaitExpression)\<rparr>],
                     totalCalls = Suc (totalCalls ci)\<rparr> fc\<rparr>)"
    using Some unfolding fc_def analyzeCall_def Let_def by simp
  then show ?thesis
    using assms(1) fc upd by (auto simp: namesInv_def split: option.splits)
qed

lemma visit_namesInv:
  "namesInv s \<Longrightarrow> callOk ev \<Longrightarrow> namesInv (snd (visit f ev (cc, s)))"
  by (cases ev) (simp_all add: Let_def analyzeFunction_namesInv analyzeCall_namesInv)

lemma fold_visit_namesInv:
  "namesInv s \<Longrightarrow> \<forall>ev \<in> set evs. callOk ev \<Longrightarrow> namesInv (snd (fold (visit f) evs (cc, s)))"
proof (induction evs arbitrary: cc s)
  case Nil
  then show ?case by simp
next
  case (Cons ev evs)
  obtain cc' s' where v: "visit f ev (cc, s) = (cc', s')" by (cases "visit f ev (cc, s)")
  with visit_namesInv [of s ev f cc] Cons.prems have "namesInv s'" by simp
  from Cons.IH [OF this] Cons.prems(2) v show ?case by simp
qed

lemma analyzeFiles_namesInv:
  "namesInv s \<Longrightarrow> list_all wfSource (map snd fs) \<Longrightarrow> namesInv (analyzeFiles fs s)"
proof (induction fs arbitrary: s)
  case Nil
  then show ?case by simp
next
  case (Cons a fs)
  obtain f src where a: "a = (f, src)" by (cases a)
  have "namesInv (case analyzeFile src f s of Inr s' \<Rightarrow> s'
           | Inl msg \<Rightarrow> s\<lparr>errors := errors s @ [''Error analyzing '' @ f @ '': '' @ msg]\<rparr>)"
  proof (cases src)
    case (Parsed ast)
    with Cons.prems(2) a have "wfTree ast" by (simp add: wfSource_def)
    then have "\<forall>ev \<in> set (eventsOf ast (kids ast)). callOk ev"
      using wfTree_callOk by blast
    from fold_visit_namesInv [OF Cons.prems(1) this] Parsed show ?thesis
      by (simp add: analyzeFile_def traverse_def)
  next
    case (Unreadable m)
    with Cons.prems(1) show ?thesis by (simp add: analyzeFile_def namesInv_def)
  next
    case (Malformed m)
    with Cons.prems(1) show ?thesis by (simp add: analyzeFile_def namesInv_def)
  next
    case (Untraversable m)
    with Cons.prems(1) show ?thesis by (simp add: analyzeFile_def namesInv_def)
  qed
  from Cons.IH [OF this] Cons.prems(2) a show ?case by simp
qed

lemma spaced_name_never_called:
  assumes wf: "list_all wfSource (map snd jsFiles)"
    and mem: "(functionId, f) \<in> set (functionsMap (analyzeFiles jsFiles newAnalyzer))"
    and np: "\<not> plainName (fname f)"
  shows "callersOf (analyzeFiles jsFiles newAnalyzer) (fname f) = []
     \<and> callCount (analyzeFiles jsFiles newAnalyzer) f = 0
     \<and> f \<in> set (fst (generateUsageReport (analyzeFiles jsFiles newAnalyzer)))"
proof -
  let ?S = "analyzeFiles jsFiles newAnalyzer"
  have "namesInv newAnalyzer" by (simp add: namesInv_def newAnalyzer_def)
  then have inv: "namesInv ?S" using wf by (rule analyzeFiles_namesInv)
  have none: "callers ci = [] \<and> totalCalls ci = 0"
    if "Map_get (functionCalls ?S) (fname f) = Some ci" for ci
  proof -
    from that have "(fname f, ci) \<in> set (functionCalls ?S)" by (rule Map_get_set)
    with inv have "neverCalledUnlessPlain (fname f, ci)" by (simp add: namesInv_def list_all_iff)
    with np show ?thesis by (simp add: neverCalledUnlessPlain_def)
  qed
  then have cc: "callCount ?S f = 0" by (simp add: callCount_def split: option.splits)
  from none have co: "callersOf ?S (fname f) = []"
    by (simp add: callersOf_def split: option.splits)
  from mem have "f \<in> set (map snd (functionsMap ?S))" by force
  with cc have "f \<in> set (fst (generateUsageReport ?S))"
    by (simp add: generateUsageReport_def usageTiers_eq)
  with co cc show ?thesis by blast
qed

section \<open>Methods of classes and objects\<close>

text \<open>The tree walker reports a method node itself to the \<open>Function\<close> visitor, with the
  class body (or the object expression) as its parent. \<open>getFunctionInfo\<close> looks for a
  method in \<open>path.parent\<close>, so for a method node without an \<open>id\<close> none of its method
  branches applies and the answer is that of its last line.\<close>

lemma method_node_not_tracked:
  assumes "ownName node = None"
    and "ntype node = ClassMethod \<or> ntype node = ObjectMethod \<or> ntype node = ClassPrivateMethod"
    and "ntype parent \<noteq> ClassMethod" and "ntype parent \<noteq> ObjectMethod"
  shows "getFunctionInfo node parent = (''anonymous'', False)"
  using assms by (auto simp: getFunctionInfo_def)


section \<open>Constructors\<close>

lemma blacklisted_constructor: "isBlacklistedFunction ''constructor''"
  by (simp add: isBlacklistedFunction_def functionBlacklist_def)

lemma analyzeFunction_trackedInv: "trackedInv s \<Longrightarrow> trackedInv (analyzeFunction n p f c s)"
  by (simp add: analyzeFunction_def trackedInv_def Let_def list_all_Map_set notBlacklisted_def)

lemma analyzeCall_functionsMap: "functionsMap (analyzeCall n p f s) = functionsMap s"
  by (simp add: analyzeCall_def Let_def split: option.splits)

lemma analyzeCall_trackedInv: "trackedInv s \<Longrightarrow> trackedInv (analyzeCall n p f s)"
  by (simp add: trackedInv_def analyzeCall_functionsMap)

lemma visit_trackedInv: "trackedInv s \<Longrightarrow> trackedInv (snd (visit f ev (cc, s)))"
  by (cases ev) (simp_all add: Let_def analyzeFunction_trackedInv analyzeCall_trackedInv)

lemma fold_visit_trackedInv:
  "trackedInv s \<Longrightarrow> trackedInv (snd (fold (visit f) evs (cc, s)))"
proof (induction evs arbitrary: cc s)
  case Nil
  then show ?case by simp
next
  case (Cons ev evs)
  obtain cc' s' where v: "visit f ev (cc, s) = (cc', s')" by (cases "visit f ev (cc, s)")
  with visit_trackedInv [OF Cons.prems, of f ev cc] have "trackedInv s'" by simp
  from Cons.IH [OF this] v show ?case by simp
qed

lemma analyzeFiles_trackedInv: "trackedInv s \<Longrightarrow> trackedInv (analyzeFiles fs s)"
proof (induction fs arbitrary: s)
  case Nil
  then show ?case by simp
next
  case (Cons a fs)
  obtain f src where a: "a = (f, src)" by (cases a)
  have "trackedInv (case analyzeFile src f s of Inr s' \<Rightarrow> s'
           | Inl msg \<Rightarrow> s\<lparr>errors := errors s @ [''Error analyzing '' @ f @ '': '' @ msg]\<rparr>)"
    using Cons.prems
    by (cases src)
       (simp_all add: analyzeFile_def traverse_def fold_visit_trackedInv,
        simp_all add: trackedInv_def)
  from Cons.IH [OF this] a show ?case by simp
qed

lemma Map_push_mem:
  "e \<in> set (Map_push k v m) \<Longrightarrow> x \<in> set (snd e) \<Longrightarrow>
     x = v \<or> (\<exists>e' \<in> set m. x \<in> set (snd e'))"
proof (induction m)
  case Nil
  then show ?case by auto
next
  case (Cons a m)
  obtain k' vs where a: "a = (k', vs)" by (cases a)
  show ?case
  proof (cases "k = k'")
    case True
    with Cons.prems a show ?thesis by auto
  next
    case False
    with Cons.prems a have "e = (k', vs) \<or> e \<in> set (Map_push k v m)" by auto
    then show ?thesis
    proof
      assume "e = (k', vs)"
      with Cons.prems(2) a show ?thesis by auto
    next
      assume "e \<in> set (Map_push k v m)"
      from Cons.IH [OF this Cons.prems(2)] show ?thesis by auto
    qed
  qed
qed

lemma fold_Map_push_mem:
  "e \<in> set (fold (\<lambda>y. Map_push (kf y) (vf y)) xs m) \<Longrightarrow> x \<in> set (snd e) \<Longrightarrow>
     x \<in> vf ` set xs \<or> (\<exists>e' \<in> set m. x \<in> set (snd e'))"
proof (induction xs arbitrary: m)
  case Nil
  then show ?case by auto
next
  case (Cons y xs)
  from Cons.IH [of "Map_push (kf y) (vf y) m"] Cons.prems
  have "x \<in> vf ` set xs \<or> (\<exists>e' \<in> set (Map_push (kf y) (vf y) m). x \<in> set (snd e'))"
    by simp
  then show ?case
  proof
    assume "x \<in> vf ` set xs"
    then show ?thesis by auto
  next
    assume "\<exists>e' \<in> set (Map_push (kf y) (vf y) m). x \<in> set (snd e')"
    then obtain e' where "e' \<in> set (Map_push (kf y) (vf y) m)" "x \<in> set (snd e')" by blast
    from Map_push_mem [OF this] show ?thesis by auto
  qed
qed

lemma inventory_names:
  assumes "nm \<in> set (inventoryNames (generateFunctionList s))"
  shows "\<exists>e \<in> set (functionsMap s). fname (snd e) = nm"
proof -
  let ?byFile = "fold (\<lambda>x. Map_push (ffile (snd x)) (snd x)) (functionsMap s) []"
  have "(\<lambda>(functionId, f). Map_push (ffile f) f) =
        (\<lambda>x :: string \<times> func. Map_push (ffile (snd x)) (snd x))"
    by (auto simp: fun_eq_iff)
  then have bf: "fold (\<lambda>(functionId, f). Map_push (ffile f) f) (functionsMap s) [] = ?byFile"
    by simp
  from assms obtain file' fs cls cfs g where
      e: "(file', fs) \<in> set ?byFile"
      and g: "(cls, cfs) \<in> set (fold (\<lambda>f. Map_push (fclass f) f) fs [(None, [])])"
      and f: "g \<in> set cfs" "nm = fname g"
    unfolding inventoryNames_def generateFunctionList_def Let_def bf by auto
  from fold_Map_push_mem [of "(cls, cfs)" fclass "\<lambda>f. f" fs "[(None, [])]" g] g f(1)
  have "g \<in> set fs" by auto
  with fold_Map_push_mem [of "(file', fs)" "\<lambda>x. ffile (snd x)" snd "functionsMap s" "[]" g] e
  have "g \<in> snd ` set (functionsMap s)" by auto
  then obtain e' where "e' \<in> set (functionsMap s)" "g = snd e'" by blast
  with f(2) show ?thesis by blast
qed

lemma finding_names:
  assumes "nm \<in> set (findingNames (generateAsyncValidationReport s))"
  shows "\<exists>e \<in> set (functionsMap s). fname (snd e) = nm"
proof -
  from assms obtain e where "e \<in> set (functionsMap s)" "nm = fname (snd e)"
    by (auto simp: findingNames_def generateAsyncValidationReport_def)
  then show ?thesis by blast
qed

lemma singleEntry_fst: "e \<in> set (singleEntry s f) \<Longrightarrow> fst e = f"
  by (auto simp: singleEntry_def split: option.splits if_splits)

lemma multiEntry_fst: "e \<in> set (multiEntry s f) \<Longrightarrow> fst e = f"
  by (auto simp: multiEntry_def split: option.splits if_splits)

lemma singleEntry_in: "e \<in> set (concat (map (singleEntry s) fs)) \<Longrightarrow> fst e \<in> set fs"
  by (induction fs) (auto dest: singleEntry_fst)

lemma multiEntry_in: "e \<in> set (concat (map (multiEntry s) fs)) \<Longrightarrow> fst e \<in> set fs"
  by (induction fs) (auto dest: multiEntry_fst)

lemma usage_names:
  assumes "nm \<in> set (usageNames (generateUsageReport s))"
  shows "\<exists>e \<in> set (functionsMap s). fname (snd e) = nm"
proof -
  define fs where "fs = map snd (functionsMap s)"
  define U where "U = filter (\<lambda>f. callCount s f = 0) fs"
  define SI where "SI = concat (map (singleEntry s) fs)"
  define MU where "MU = concat (map (multiEntry s) fs)"
  have r: "generateUsageReport s = (U, SI, arraySort byCallCount MU)"
    by (simp add: generateUsageReport_def usageTiers_eq U_def SI_def MU_def fs_def)
  have "set (usageNames (U, SI, arraySort byCallCount MU)) =
      fname ` set U \<union> (\<lambda>e. fname (fst e)) ` set SI \<union> (\<lambda>e. fname (fst e)) ` set MU"
    by (simp add: usageNames_def arraySort_set Un_assoc)
  with assms have "(\<exists>f \<in> set U. nm = fname f) \<or> (\<exists>e \<in> set SI. nm = fname (fst e))
      \<or> (\<exists>e \<in> set MU. nm = fname (fst e))"
    unfolding r by blast
  then have "\<exists>f \<in> set fs. nm = fname f"
  proof (elim disjE bexE)
    fix f assume "f \<in> set U" "nm = fname f"
    then show ?thesis by (auto simp: U_def)
  next
    fix e assume "e \<in> set SI" "nm = fname (fst e)"
    with singleEntry_in [of e s fs] show ?thesis by (auto simp: SI_def)
  next
    fix e assume "e \<in> set MU" "nm = fname (fst e)"
    with multiEntry_in [of e s fs] show ?thesis by (auto simp: MU_def)
  qed
  then obtain f where "f \<in> set fs" "nm = fname f" by blast
  then obtain e where "e \<in> set (functionsMap s)" "nm = fname (snd e)"
    by (auto simp: fs_def)
  then show ?thesis by blast
qed

lemma tracked_not_blacklisted:
  assumes "e \<in> set (functionsMap (analyzeFiles jsFiles newAnalyzer))"
  shows "\<not> isBlacklistedFunction (fname (snd e))"
proof -
  have "trackedInv newAnalyzer" by (simp add: trackedInv_def newAnalyzer_def)
  then have "trackedInv (analyzeFiles jsFiles newAnalyzer)" by (rule analyzeFiles_trackedInv)
  with assms show ?thesis by (simp add: trackedInv_def list_all_iff notBlacklisted_def)
qed

text \<open>
  Claim C10 says that the classifier names every constructor \<open>constructor\<close> and that
  the blacklist then skips it. The constructor of the class \<open>Box\<close> of the example is
  classified \<open>anonymous\<close> and not tracked; \<open>analyzeFunction\<close> skips it for that reason and
  only increments the skipped count. The name \<open>constructor\<close> is in the blacklist, and
  in no run does a declaration, an inventory line, an async finding or a usage entry
  carry it.
\<close>

theorem constructor_is_not_named:
  "ntype exConstructor = ClassMethod \<and> nkind exConstructor = KConstructor
   \<and> isFunction exConstructor
   \<and> getFunctionInfo exConstructor exClassBody = (''anonymous'', False)
   \<and> analyzeFunction exConstructor exClassBody ''box.js'' (Some ''Box'') newAnalyzer
       = newAnalyzer\<lparr>skippedFunctionCount := 1\<rparr>
   \<and> isBlacklistedFunction ''constructor''
   \<and> ''constructor'' \<notin> set (map (\<lambda>e. fname (snd e))
                               (functionsMap (analyzeFiles jsFiles newAnalyzer)))
   \<and> ''constructor'' \<notin> set (inventoryNames (inventory (analyzeFolder now folderPath jsFiles)))
   \<and> ''constructor'' \<notin> set (findingNames (asyncFindings (analyzeFolder now folderPath jsFiles)))
   \<and> ''constructor'' \<notin> set (usageNames (usage (analyzeFolder now folderPath jsFiles)))"
proof -
  let ?S = "analyzeFiles jsFiles newAnalyzer"
  have ev: "ntype exConstructor = ClassMethod \<and> nkind exConstructor = KConstructor
     \<and> isFunction exConstructor
     \<and> getFunctionInfo exConstructor exClassBody = (''anonymous'', False)"
    by code_simp
  then have sk: "analyzeFunction exConstructor exClassBody ''box.js'' (Some ''Box'') newAnalyzer
       = newAnalyzer\<lparr>skippedFunctionCount := 1\<rparr>"
    by (simp add: analyzeFunction_def Let_def newAnalyzer_def)
  have none: "\<not> (\<exists>e \<in> set (functionsMap ?S). fname (snd e) = ''constructor'')"
  proof
    assume "\<exists>e \<in> set (functionsMap ?S). fname (snd e) = ''constructor''"
    then obtain e where "e \<in> set (functionsMap ?S)" "fname (snd e) = ''constructor''" by blast
    with tracked_not_blacklisted [of e jsFiles] blacklisted_constructor show False by simp
  qed
  have a: "''constructor'' \<notin> set (map (\<lambda>e. fname (snd e)) (functionsMap ?S))"
    using none by auto
  have b: "''constructor'' \<notin> set (inventoryNames (generateFunctionList ?S))"
    using none inventory_names [of "''constructor''" ?S] by blast
  have c: "''constructor'' \<notin> set (findingNames (generateAsyncValidationReport ?S))"
    using none finding_names [of "''constructor''" ?S] by blast
  have d: "''constructor'' \<notin> set (usageNames (generateUsageReport ?S))"
    using none usage_names [of "''constructor''" ?S] by blast
  from ev sk a b c d blacklisted_constructor
  show ?thesis by (simp add: analyzeFolder_def Let_def)
qed


section \<open>Runs on one analyzer object\<close>

lemma Map_get_Map_set_if:
  "Map_get (Map_set k v m) k' = (if k' = k then Some v else Map_get m k')"
  by (induction m) (auto simp: Map_get_def)

























end
